theory Spec2Isabelle
  imports Complex_Main
begin

section \<open>The ii AI streaming proxy: \<^verbatim>\<open>ai/streaming.py\<close>\<close>

text \<open>
  A shallow embedding of \<^verbatim>\<open>StreamHandler\<close> from
  \<^verbatim>\<open>dots/.config/quickshell/ii/ai/streaming.py\<close>.  Python text is a
  \<^typ>\<open>string\<close> with one character per code point, so \<^term>\<open>length\<close> is
  Python's \<^verbatim>\<open>len\<close>; Python integers are \<^typ>\<open>int\<close>.
\<close>

subsection \<open>The usage estimator\<close>

text \<open>
  \<^verbatim>\<open>
  def _estimate_tokens(text: str) -> int:
      if not text:
          return 0
      return max(1, (len(text) + 3) // 4)
  \<close>
\<close>

definition estimate_tokens :: "string \<Rightarrow> int" where
  "estimate_tokens text =
     (if text = [] then 0 else max 1 ((int (length text) + 3) div 4))"

subsection \<open>JSON values and the Python operations the handler applies to them\<close>

text \<open>
  Everything the handler receives from \<^verbatim>\<open>json.loads\<close> is a value of this
  type (numbers are integers here).  A Python \<^verbatim>\<open>dict\<close> is an association list
  in insertion order, which is the order Python iterates it in.
\<close>

datatype json =
    JNull
  | JBool bool
  | JNum int
  | JStr string
  | JArr "json list"
  | JObj "(string \<times> json) list"

type_synonym dict = "(string \<times> json) list"

text \<open>The exceptions the modelled code can raise.\<close>

datatype exn = AttributeError | IndexError | KeyError | TypeError | JSONDecodeError

text \<open>Python truth value: \<^verbatim>\<open>if x:\<close>, \<^verbatim>\<open>bool(x)\<close>, \<^verbatim>\<open>x or y\<close>.\<close>

fun truthy :: "json \<Rightarrow> bool" where
  "truthy JNull = False"
| "truthy (JBool b) = b"
| "truthy (JNum n) = (n \<noteq> 0)"
| "truthy (JStr s) = (s \<noteq> [])"
| "truthy (JArr xs) = (xs \<noteq> [])"
| "truthy (JObj kvs) = (kvs \<noteq> [])"

text \<open>\<^verbatim>\<open>k in d\<close>, \<^verbatim>\<open>d.get(k, default)\<close> and \<^verbatim>\<open>d[k] = v\<close> on a dict.\<close>

definition has_key :: "(string \<times> 'v) list \<Rightarrow> string \<Rightarrow> bool" where
  "has_key d k = (k \<in> set (map fst d))"

definition dict_get :: "(string \<times> 'v) list \<Rightarrow> string \<Rightarrow> 'v \<Rightarrow> 'v" where
  "dict_get d k dflt = (case map_of d k of None \<Rightarrow> dflt | Some v \<Rightarrow> v)"

fun dict_set :: "(string \<times> 'v) list \<Rightarrow> string \<Rightarrow> 'v \<Rightarrow> (string \<times> 'v) list" where
  "dict_set [] k v = [(k, v)]"
| "dict_set ((k', v') # d) k v = (if k' = k then (k, v) # d else (k', v') # dict_set d k v)"


text \<open>
  \<^verbatim>\<open>x.get(k, default)\<close> on an arbitrary value: only a dict has \<^verbatim>\<open>get\<close>.
\<close>

definition py_get :: "json \<Rightarrow> string \<Rightarrow> json \<Rightarrow> exn + json" where
  "py_get x k dflt = (case x of JObj d \<Rightarrow> Inr (dict_get d k dflt) | _ \<Rightarrow> Inl AttributeError)"

text \<open>\<^verbatim>\<open>x[0]\<close> on an arbitrary value (a JSON dict has string keys only).\<close>

fun py_first :: "json \<Rightarrow> exn + json" where
  "py_first (JArr []) = Inl IndexError"
| "py_first (JArr (x # xs)) = Inr x"
| "py_first (JStr []) = Inl IndexError"
| "py_first (JStr (c # cs)) = Inr (JStr [c])"
| "py_first (JObj d) = Inl KeyError"
| "py_first x = Inl TypeError"

text \<open>\<^verbatim>\<open>for v in x\<close> on an arbitrary value.\<close>

fun py_iter :: "json \<Rightarrow> exn + json list" where
  "py_iter (JArr xs) = Inr xs"
| "py_iter (JStr s) = Inr (map (\<lambda>c. JStr [c]) s)"
| "py_iter (JObj d) = Inr (map (\<lambda>p. JStr (fst p)) d)"
| "py_iter x = Inl TypeError"

text \<open>\<^verbatim>\<open>s += v\<close> for a string \<open>s\<close>.\<close>

fun py_concat :: "string \<Rightarrow> json \<Rightarrow> exn + string" where
  "py_concat s (JStr v) = Inr (s @ v)"
| "py_concat s v = Inl TypeError"

text \<open>Sequencing of a computation that may raise.\<close>

definition bindE :: "'e + 'a \<Rightarrow> ('a \<Rightarrow> 'e + 'b) \<Rightarrow> 'e + 'b" where
  "bindE m f = (case m of Inl e \<Rightarrow> Inl e | Inr x \<Rightarrow> f x)"

text \<open>\<^verbatim>\<open>str.strip()\<close> and \<^verbatim>\<open>str.startswith\<close>.\<close>

definition is_space :: "char \<Rightarrow> bool" where
  "is_space c =
     (let n = (of_char c :: nat)
      in (9 \<le> n \<and> n \<le> 13) \<or> (28 \<le> n \<and> n \<le> 32) \<or> n = 133 \<or> n = 160)"

definition strip :: "string \<Rightarrow> string" where
  "strip s = rev (dropWhile is_space (rev (dropWhile is_space s)))"

definition startswith :: "string \<Rightarrow> string \<Rightarrow> bool" where
  "startswith s p = (take (length p) s = p)"

text \<open>\<^verbatim>\<open>hex(n)[2:]\<close> for \<open>n \<ge> 0\<close>.\<close>

function hexstr :: "nat \<Rightarrow> string" where
  "hexstr n =
     (if n < 16 then [''0123456789abcdef'' ! n]
      else hexstr (n div 16) @ [''0123456789abcdef'' ! (n mod 16)])"
  by pat_completeness auto
termination
  by (relation "measure id") auto

declare hexstr.simps [simp del]

subsection \<open>The world outside the handler\<close>

text \<open>
  Library functions and collaborators that are not part of \<^verbatim>\<open>streaming.py\<close> are
  parameters:
  \<^item> \<open>loads\<close> is \<^verbatim>\<open>json.loads\<close> on a string (\<open>None\<close> where it raises
    \<^verbatim>\<open>JSONDecodeError\<close>); \<open>dumps\<close> is \<^verbatim>\<open>json.dumps\<close> and
    \<open>dumps_unicode\<close> is \<^verbatim>\<open>json.dumps(..., ensure_ascii=False)\<close>;
  \<^item> \<open>str_of\<close> is the formatting of a value inside an f-string, \<open>str_exn\<close> is
    \<^verbatim>\<open>str(e)\<close> of a caught exception;
  \<^item> \<open>environ\<close> is \<^verbatim>\<open>os.environ.get\<close>, \<open>int_of_str\<close> is \<^verbatim>\<open>int\<close> on
    a string (\<open>None\<close> where it raises);
  \<^item> \<open>time_ms\<close> gives the reading of the \<open>n\<close>-th call of \<^verbatim>\<open>time.time()\<close>, in
    whole milliseconds;
  \<^item> \<open>execute_tool\<close> is the tool executor, at its \<open>n\<close>-th invocation (it runs
    commands and reads files, so it may answer differently each time, and may raise);
  \<^item> \<open>request_chat_completions\<close> is the upstream client at its \<open>n\<close>-th request:
    \<open>Inl msg\<close> is \<^verbatim>\<open>ProxyError(msg)\<close>, \<open>Inr lines\<close> the response, read line
    by line;
  \<^item> \<open>wfile_ok\<close> says whether the \<open>n\<close>-th write to the client goes through; where it
    does not, \<^verbatim>\<open>_write\<close> catches the \<^verbatim>\<open>BrokenPipeError\<close> or
    \<^verbatim>\<open>ConnectionResetError\<close> and returns \<^verbatim>\<open>False\<close>;
  \<^item> \<open>send_headers\<close> says whether the handler was given a \<^verbatim>\<open>send_headers\<close>
    callback.
\<close>

record world =
  loads :: "string \<Rightarrow> json option"
  dumps :: "json \<Rightarrow> string"
  dumps_unicode :: "json \<Rightarrow> string"
  str_of :: "json \<Rightarrow> string"
  str_exn :: "exn \<Rightarrow> string"
  environ :: "string \<Rightarrow> string option"
  int_of_str :: "string \<Rightarrow> int option"
  time_ms :: "nat \<Rightarrow> nat"
  execute_tool :: "nat \<Rightarrow> json \<Rightarrow> json \<Rightarrow> exn + dict"
  request_chat_completions :: "nat \<Rightarrow> dict \<Rightarrow> string + string list"
  wfile_ok :: "nat \<Rightarrow> bool"
  send_headers :: bool

text \<open>
  What is written to the client: a synthetic event (sent as
  \<^verbatim>\<open>data: <json.dumps(event)>\n\n\<close>), a byte literal, or an upstream line passed on.
\<close>

datatype wr = Event json | Bytes string | Line string

text \<open>
  The observable state: the writes attempted on \<^verbatim>\<open>wfile\<close> in order, each with
  whether it went through; the number of clock readings taken; the request bodies sent
  upstream; the tool invocations made; and the handler's \<^verbatim>\<open>_headers_sent\<close> flag
  with the number of times the headers callback ran.
\<close>

record io =
  out :: "(wr \<times> bool) list"
  clock_reads :: nat
  requests :: "dict list"
  tool_runs :: "(json \<times> json) list"
  headers_sent :: bool
  header_sends :: nat

definition io0 :: io where
  "io0 = \<lparr>out = [], clock_reads = 0, requests = [], tool_runs = [],
          headers_sent = False, header_sends = 0\<rparr>"

text \<open>
  \<^verbatim>\<open>
  def _write(self, data: bytes) -> bool:
      try:
          self.wfile.write(data); self.wfile.flush(); return True
      except (BrokenPipeError, ConnectionResetError):
          return False
  def _send_event(self, event): return self._write(f"data: {json.dumps(event)}\n\n".encode())
  def _send_error(self, message): return self._send_event({"type": "error", "message": message})
  \<close>
\<close>

definition write_out :: "world \<Rightarrow> wr \<Rightarrow> io \<Rightarrow> bool \<times> io" where
  "write_out w x s =
     (let ok = wfile_ok w (length (out s)) in (ok, s\<lparr>out := out s @ [(x, ok)]\<rparr>))"

definition send_event :: "world \<Rightarrow> json \<Rightarrow> io \<Rightarrow> bool \<times> io" where
  "send_event w event s = write_out w (Event event) s"

definition send_error :: "world \<Rightarrow> string \<Rightarrow> io \<Rightarrow> bool \<times> io" where
  "send_error w message s =
     send_event w (JObj [(''type'', JStr ''error''), (''message'', JStr message)]) s"

text \<open>The bytes a logged write puts on the wire.\<close>

definition wire :: "world \<Rightarrow> wr \<Rightarrow> string" where
  "wire w x =
     (case x of
        Event e \<Rightarrow> ''data: '' @ dumps w e @ [CHR 0x0A, CHR 0x0A]
      | Bytes b \<Rightarrow> b
      | Line l \<Rightarrow> l)"

definition done_literal :: string where
  "done_literal = ''data: [DONE]'' @ [CHR 0x0A, CHR 0x0A]"

subsection \<open>The default tool set (\<^verbatim>\<open>tools.get_tool_definitions\<close>)\<close>

definition tool_definition :: "string \<Rightarrow> string \<Rightarrow> dict \<Rightarrow> string list \<Rightarrow> json" where
  "tool_definition nm description properties required =
     JObj [(''type'', JStr ''function''),
           (''function'', JObj [(''name'', JStr nm),
                                (''description'', JStr description),
                                (''parameters'', JObj [(''type'', JStr ''object''),
                                                       (''properties'', JObj properties),
                                                       (''required'', JArr (map JStr required))])])]"

definition string_property :: "string \<Rightarrow> json" where
  "string_property description =
     JObj [(''type'', JStr ''string''), (''description'', JStr description)]"

definition get_tool_definitions :: json where
  "get_tool_definitions = JArr
     [tool_definition ''run_shell_command''
        ''Run a shell command in bash and get its output. Use this for quick commands. The 'command' argument is REQUIRED.''
        [(''command'', string_property ''The bash command to run (REQUIRED)'')]
        [''command''],
      tool_definition ''get_shell_config''
        ''Get the desktop shell configuration file contents''
        [] [],
      tool_definition ''set_shell_config''
        ''Set a field in the desktop shell configuration file. Must use after get_shell_config.''
        [(''key'', string_property (''The config key path, e.g. 'appearance.theme'' @ [CHR 0x27])),
         (''value'', string_property ''The value to set'')]
        [''key'', ''value'']]"

text \<open>
  \<^verbatim>\<open>
  if "tools" not in body or not body.get("tools"):
      body["tools"] = get_tool_definitions()
      body["tool_choice"] = "auto"
  \<close>
\<close>

definition inject_tools :: "dict \<Rightarrow> dict" where
  "inject_tools body =
     (if \<not> has_key body ''tools'' \<or> \<not> truthy (dict_get body ''tools'' JNull)
      then dict_set (dict_set body ''tools'' get_tool_definitions) ''tool_choice'' (JStr ''auto'')
      else body)"

subsection \<open>Synthetic events\<close>

definition usage_event :: "json \<Rightarrow> json \<Rightarrow> json \<Rightarrow> bool \<Rightarrow> string option \<Rightarrow> json" where
  "usage_event prompt_tokens completion_tokens total_tokens estimated request_id =
     JObj ([(''type'', JStr ''usage''),
            (''usage'', JObj [(''prompt_tokens'', prompt_tokens),
                              (''completion_tokens'', completion_tokens),
                              (''total_tokens'', total_tokens)]),
            (''estimated'', JBool estimated)]
           @ (case request_id of None \<Rightarrow> [] | Some r \<Rightarrow> [(''request_id'', JStr r)]))"

definition tool_call_view :: "json \<Rightarrow> json \<Rightarrow> json \<Rightarrow> json" where
  "tool_call_view i nm args = JObj [(''id'', i), (''name'', nm), (''args'', args)]"

definition tool_execution_event :: "json \<Rightarrow> json \<Rightarrow> json \<Rightarrow> json" where
  "tool_execution_event i nm args =
     JObj [(''type'', JStr ''tool_execution''),
           (''tool_call'', tool_call_view i nm args),
           (''status'', JStr ''executing'')]"

definition tool_result_event :: "json \<Rightarrow> json \<Rightarrow> json \<Rightarrow> dict \<Rightarrow> json" where
  "tool_result_event i nm args result =
     JObj [(''type'', JStr ''tool_result''),
           (''tool_call'', tool_call_view i nm args),
           (''result'', JObj result)]"

definition continuation_event :: "string \<Rightarrow> json" where
  "continuation_event request_id =
     JObj [(''type'', JStr ''continuation''), (''status'', JStr ''starting''),
           (''request_id'', JStr request_id)]"

definition streaming_error_event :: "string \<Rightarrow> string \<Rightarrow> json" where
  "streaming_error_event message request_id =
     JObj [(''type'', JStr ''error''), (''message'', JStr (''Streaming error: '' @ message)),
           (''where'', JStr ''backend''), (''request_id'', JStr request_id)]"

text \<open>
  \<^verbatim>\<open>prompt_tokens = self._estimate_tokens(json.dumps(body.get("messages", []), ensure_ascii=False))\<close>
\<close>

definition prompt_tokens_of :: "world \<Rightarrow> dict \<Rightarrow> int" where
  "prompt_tokens_of w body =
     estimate_tokens (dumps_unicode w (dict_get body ''messages'' (JArr [])))"

subsection \<open>The state of one upstream turn\<close>

text \<open>
  An entry of \<^verbatim>\<open>tool_call_buffer\<close>: \<^verbatim>\<open>{"id": ..., "name": ..., "args_str": ...}\<close>.
  The id and the name are whatever truthy value the deltas carried.
\<close>

record fragment =
  tc_id :: json
  tc_name :: json
  args_str :: string

type_synonym buffer = "(string \<times> fragment) list"

record turn =
  tool_call_buffer :: buffer
  collected_content :: string
  collected_reasoning :: string
  last_usage :: "dict option"
  last_usage_emit_ts :: nat

definition turn0 :: turn where
  "turn0 = \<lparr>tool_call_buffer = [], collected_content = [], collected_reasoning = [],
            last_usage = None, last_usage_emit_ts = 0\<rparr>"

text \<open>
  \<^verbatim>\<open>
  def _maybe_emit_usage_estimate(force: bool = False) -> None:
      if last_usage is not None:
          return
      now = time.time()
      if not force and (now - _last_usage_emit_ts) < 0.75:
          return
      completion_text = (collected_reasoning or "") + (collected_content or "")
      completion_tokens = self._estimate_tokens(completion_text)
      self._send_event({"type": "usage", "usage": {...}, "estimated": True, "request_id": request_id})
      _last_usage_emit_ts = now
  \<close>
\<close>

definition maybe_emit_usage_estimate ::
  "world \<Rightarrow> string \<Rightarrow> int \<Rightarrow> bool \<Rightarrow> turn \<Rightarrow> io \<Rightarrow> turn \<times> io" where
  "maybe_emit_usage_estimate w request_id prompt_tokens_estimate force t s =
     (if last_usage t \<noteq> None then (t, s)
      else
        let now = time_ms w (clock_reads s);
            s1 = s\<lparr>clock_reads := Suc (clock_reads s)\<rparr>
        in if \<not> force \<and> int now - int (last_usage_emit_ts t) < 750 then (t, s1)
           else
             let completion_tokens =
                   estimate_tokens (collected_reasoning t @ collected_content t);
                 s2 = snd (send_event w
                        (usage_event (JNum prompt_tokens_estimate) (JNum completion_tokens)
                           (JNum (prompt_tokens_estimate + completion_tokens)) True
                           (Some request_id)) s1)
             in (t\<lparr>last_usage_emit_ts := now\<rparr>, s2))"

subsection \<open>Merging tool-call deltas into the buffer\<close>

text \<open>
  \<^verbatim>\<open>
  for tc in delta["tool_calls"]:
      idx = tc.get("index", 0)
      key = f"idx:{idx}"
      if key not in tool_call_buffer:
          tool_call_buffer[key] = {"id": "", "name": "", "args_str": ""}
      if tc.get("id"):
          tool_call_buffer[key]["id"] = tc["id"]
      if tc.get("function", {}).get("name"):
          tool_call_buffer[key]["name"] = tc["function"]["name"]
      if tc.get("function", {}).get("arguments"):
          tool_call_buffer[key]["args_str"] += tc["function"]["arguments"]
  \<close>
\<close>

definition empty_fragment :: fragment where
  "empty_fragment = \<lparr>tc_id = JStr [], tc_name = JStr [], args_str = []\<rparr>"

definition buffer_key :: "world \<Rightarrow> json \<Rightarrow> exn + string" where
  "buffer_key w tc = bindE (py_get tc ''index'' (JNum 0)) (\<lambda>idx. Inr (''idx:'' @ str_of w idx))"

definition merge_tool_call :: "world \<Rightarrow> buffer \<Rightarrow> json \<Rightarrow> exn + buffer" where
  "merge_tool_call w buf tc =
     bindE (buffer_key w tc) (\<lambda>key.
       let buf1 = (if \<not> has_key buf key then dict_set buf key empty_fragment else buf)
       in bindE (py_get tc ''id'' JNull) (\<lambda>i.
       let buf2 = (if truthy i
                   then dict_set buf1 key ((dict_get buf1 key empty_fragment)\<lparr>tc_id := i\<rparr>)
                   else buf1)
       in bindE (bindE (py_get tc ''function'' (JObj [])) (\<lambda>f. py_get f ''name'' JNull)) (\<lambda>nm.
       let buf3 = (if truthy nm
                   then dict_set buf2 key ((dict_get buf2 key empty_fragment)\<lparr>tc_name := nm\<rparr>)
                   else buf2)
       in bindE (bindE (py_get tc ''function'' (JObj [])) (\<lambda>f. py_get f ''arguments'' JNull)) (\<lambda>a.
          if truthy a
          then bindE (py_concat (args_str (dict_get buf3 key empty_fragment)) a) (\<lambda>joined.
                 Inr (dict_set buf3 key ((dict_get buf3 key empty_fragment)\<lparr>args_str := joined\<rparr>)))
          else Inr buf3))))"

fun merge_tool_calls :: "world \<Rightarrow> buffer \<Rightarrow> json list \<Rightarrow> exn + buffer" where
  "merge_tool_calls w buf [] = Inr buf"
| "merge_tool_calls w buf (tc # tcs) =
     bindE (merge_tool_call w buf tc) (\<lambda>buf'. merge_tool_calls w buf' tcs)"

subsection \<open>One data chunk of the stream\<close>

text \<open>
  The body of the \<^verbatim>\<open>try\<close> at lines 336--378, after \<^verbatim>\<open>json.loads\<close> has
  succeeded.  A result \<open>Inl (e, s)\<close> is exception \<open>e\<close> raised in state \<open>s\<close>; none
  of them is a \<^verbatim>\<open>JSONDecodeError\<close>, so each leaves the read loop.
  \<^verbatim>\<open>
  if isinstance(chunk, dict) and isinstance(chunk.get("usage"), dict):
      u = chunk.get("usage") or {}
      last_usage = {"prompt_tokens": u.get("prompt_tokens", 0),
                    "completion_tokens": u.get("completion_tokens", 0),
                    "total_tokens": u.get("total_tokens", 0), "estimated": False}
  delta = chunk.get("choices", [{}])[0].get("delta", {})
  if delta.get("content"):
      collected_content += delta["content"]
  if delta.get("reasoning_content"):
      collected_reasoning += delta["reasoning_content"]
  _maybe_emit_usage_estimate(force=False)
  if delta.get("tool_calls"):
      for tc in delta["tool_calls"]: ...
  \<close>
\<close>

definition upstream_usage :: "json \<Rightarrow> dict option" where
  "upstream_usage chunk =
     (case chunk of
        JObj d \<Rightarrow>
          (case dict_get d ''usage'' JNull of
             JObj u \<Rightarrow>
               Some [(''prompt_tokens'', dict_get u ''prompt_tokens'' (JNum 0)),
                     (''completion_tokens'', dict_get u ''completion_tokens'' (JNum 0)),
                     (''total_tokens'', dict_get u ''total_tokens'' (JNum 0)),
                     (''estimated'', JBool False)]
           | _ \<Rightarrow> None)
      | _ \<Rightarrow> None)"

definition chunk_delta :: "json \<Rightarrow> exn + json" where
  "chunk_delta chunk =
     bindE (py_get chunk ''choices'' (JArr [JObj []])) (\<lambda>choices.
     bindE (py_first choices) (\<lambda>choice.
     py_get choice ''delta'' (JObj [])))"

definition collect :: "json \<Rightarrow> string \<Rightarrow> string \<Rightarrow> exn + string" where
  "collect delta field collected =
     bindE (py_get delta field JNull) (\<lambda>v.
       if truthy v then py_concat collected v else Inr collected)"

definition process_chunk ::
  "world \<Rightarrow> string \<Rightarrow> int \<Rightarrow> json \<Rightarrow> turn \<Rightarrow> io \<Rightarrow> (exn \<times> io) + (turn \<times> io)" where
  "process_chunk w request_id prompt_tokens_estimate chunk t s =
     (let t1 = (case upstream_usage chunk of None \<Rightarrow> t | Some u \<Rightarrow> t\<lparr>last_usage := Some u\<rparr>)
      in case chunk_delta chunk of
           Inl e \<Rightarrow> Inl (e, s)
         | Inr delta \<Rightarrow>
      (case collect delta ''content'' (collected_content t1) of
           Inl e \<Rightarrow> Inl (e, s)
         | Inr content \<Rightarrow>
      (case collect delta ''reasoning_content'' (collected_reasoning t1) of
           Inl e \<Rightarrow> Inl (e, s)
         | Inr reasoning \<Rightarrow>
      (let t2 = t1\<lparr>collected_content := content, collected_reasoning := reasoning\<rparr>;
           (t3, s1) = maybe_emit_usage_estimate w request_id prompt_tokens_estimate False t2 s
       in case py_get delta ''tool_calls'' JNull of
            Inl e \<Rightarrow> Inl (e, s1)
          | Inr tcs \<Rightarrow>
              if truthy tcs
              then (case bindE (py_iter tcs) (merge_tool_calls w (tool_call_buffer t3)) of
                      Inl e \<Rightarrow> Inl (e, s1)
                    | Inr buf \<Rightarrow> Inr (t3\<lparr>tool_call_buffer := buf\<rparr>, s1))
              else Inr (t3, s1)))))"

subsection \<open>Tool dispatch at \<^verbatim>\<open>[DONE]\<close>\<close>

text \<open>
  The loop of lines 191--238 over \<^verbatim>\<open>tool_call_buffer.items()\<close>, in the dict's own
  order.  It threads \<^verbatim>\<open>collected_tool_calls\<close> and \<^verbatim>\<open>tool_results\<close>.
  \<^verbatim>\<open>
  for key, buf in tool_call_buffer.items():
      if buf.get("name"):
          try: args = json.loads(buf.get("args_str", "{}"))
          except json.JSONDecodeError: args = {}
          collected_tool_calls.append({"id": buf.get("id", key), "type": "function",
              "function": {"name": buf["name"], "arguments": buf.get("args_str", "{}")}})
          self._send_event({"type": "tool_execution", ...})
          _maybe_emit_usage_estimate(force=True)
          result = execute_tool(buf["name"], args)
          tool_results[key] = result
          self._send_event({"type": "tool_result", ..., "result": result})
          _maybe_emit_usage_estimate(force=True)
  \<close>
  Every buffer entry has the keys \<^verbatim>\<open>id\<close> and \<^verbatim>\<open>args_str\<close>, so the defaults of
  \<^verbatim>\<open>buf.get("id", key)\<close> and \<^verbatim>\<open>buf.get("args_str", "{}")\<close> are never taken.
\<close>

definition parsed_args :: "world \<Rightarrow> fragment \<Rightarrow> json" where
  "parsed_args w b = (case loads w (args_str b) of None \<Rightarrow> JObj [] | Some a \<Rightarrow> a)"

definition tool_call_message :: "fragment \<Rightarrow> json" where
  "tool_call_message b =
     JObj [(''id'', tc_id b), (''type'', JStr ''function''),
           (''function'', JObj [(''name'', tc_name b), (''arguments'', JStr (args_str b))])]"

fun run_tools ::
  "world \<Rightarrow> string \<Rightarrow> int \<Rightarrow> buffer \<Rightarrow> turn \<Rightarrow> json list \<Rightarrow> (string \<times> dict) list \<Rightarrow> io
   \<Rightarrow> (exn \<times> io) + (json list \<times> (string \<times> dict) list \<times> turn \<times> io)" where
  "run_tools w request_id pte [] t calls results s = Inr (calls, results, t, s)"
| "run_tools w request_id pte ((key, b) # rest) t calls results s =
     (if truthy (tc_name b) then
        (let args = parsed_args w b;
             calls1 = calls @ [tool_call_message b];
             s1 = snd (send_event w (tool_execution_event (tc_id b) (tc_name b) args) s);
             (t1, s2) = maybe_emit_usage_estimate w request_id pte True t s1;
             s3 = s2\<lparr>tool_runs := tool_runs s2 @ [(tc_name b, args)]\<rparr>
         in case execute_tool w (length (tool_runs s2)) (tc_name b) args of
              Inl e \<Rightarrow> Inl (e, s3)
            | Inr result \<Rightarrow>
                (let results1 = dict_set results key result;
                     s4 = snd (send_event w
                            (tool_result_event (tc_id b) (tc_name b) args result) s3);
                     (t2, s5) = maybe_emit_usage_estimate w request_id pte True t1 s4
                 in run_tools w request_id pte rest t2 calls1 results1 s5))
      else run_tools w request_id pte rest t calls results s)"

text \<open>
  The follow-up conversation, lines 241--260.
  \<^verbatim>\<open>
  messages = body.get("messages", [])
  assistant_msg = {"role": "assistant"}
  if collected_reasoning:
      assistant_msg["reasoning_content"] = collected_reasoning
  assistant_msg["content"] = collected_content or ""
  assistant_msg["tool_calls"] = collected_tool_calls
  messages.append(assistant_msg)
  for key, buf in tool_call_buffer.items():
      if buf.get("name") and key in tool_results:
          result = tool_results[key]
          output = result.get("output", "") if result.get("success") else json.dumps(result)
          messages.append({"role": "tool", "tool_call_id": buf.get("id", key), "content": output})
  \<close>
\<close>

definition assistant_message :: "turn \<Rightarrow> json list \<Rightarrow> json" where
  "assistant_message t calls =
     JObj ([(''role'', JStr ''assistant'')]
           @ (if collected_reasoning t \<noteq> []
              then [(''reasoning_content'', JStr (collected_reasoning t))] else [])
           @ [(''content'', JStr (collected_content t)), (''tool_calls'', JArr calls)])"

definition tool_output :: "world \<Rightarrow> dict \<Rightarrow> json" where
  "tool_output w result =
     (if truthy (dict_get result ''success'' JNull)
      then dict_get result ''output'' (JStr [])
      else JStr (dumps w (JObj result)))"

definition tool_message :: "world \<Rightarrow> fragment \<Rightarrow> dict \<Rightarrow> json" where
  "tool_message w b result =
     JObj [(''role'', JStr ''tool''), (''tool_call_id'', tc_id b),
           (''content'', tool_output w result)]"

fun tool_messages :: "world \<Rightarrow> buffer \<Rightarrow> (string \<times> dict) list \<Rightarrow> json list" where
  "tool_messages w [] results = []"
| "tool_messages w ((key, b) # rest) results =
     (if truthy (tc_name b) \<and> has_key results key
      then tool_message w b (dict_get results key []) # tool_messages w rest results
      else tool_messages w rest results)"

definition follow_up_messages ::
  "world \<Rightarrow> dict \<Rightarrow> turn \<Rightarrow> json list \<Rightarrow> (string \<times> dict) list \<Rightarrow> exn + json list" where
  "follow_up_messages w body t calls results =
     (case dict_get body ''messages'' (JArr []) of
        JArr messages \<Rightarrow>
          Inr (messages @ [assistant_message t calls]
               @ tool_messages w (tool_call_buffer t) results)
      | _ \<Rightarrow> Inl AttributeError)"

subsection \<open>The read loop of one invocation\<close>

text \<open>
  An invocation of \<^verbatim>\<open>handle_streaming\<close> either returns, or ends in the call
  \<^verbatim>\<open>self.handle_streaming(body, is_first=False, max_iterations=max_iterations - 1)\<close>
  followed by \<^verbatim>\<open>return\<close>; \<open>Call\<close> carries the arguments of that call.
\<close>

datatype outcome = Return io | Call dict bool int io

datatype line_result = Raised exn io | Finished outcome | Forward turn io

text \<open>
  Lines 186--334: the payload is \<^verbatim>\<open>[DONE]\<close>.  With a non-empty buffer the tools
  run, the conversation is extended, the continuation event and (without upstream usage)
  the estimate for the next prompt are sent, and the handler calls itself.  Nothing
  between lines 264 and 296 raises \<^verbatim>\<open>ProxyError\<close> (the recursive call catches its
  own), so the handler at lines 297--301 is never entered.  With an empty buffer the final
  usage event and the \<^verbatim>\<open>[DONE]\<close> line itself are written.
\<close>

definition final_usage :: "world \<Rightarrow> dict \<Rightarrow> turn \<Rightarrow> dict" where
  "final_usage w body t =
     (case last_usage t of
        Some u \<Rightarrow> u
      | None \<Rightarrow>
          (let prompt_tokens = prompt_tokens_of w body;
               completion_tokens =
                 estimate_tokens (collected_reasoning t @ collected_content t)
           in [(''prompt_tokens'', JNum prompt_tokens),
               (''completion_tokens'', JNum completion_tokens),
               (''total_tokens'', JNum (prompt_tokens + completion_tokens)),
               (''estimated'', JBool True)]))"

definition at_done ::
  "world \<Rightarrow> string \<Rightarrow> int \<Rightarrow> dict \<Rightarrow> int \<Rightarrow> string \<Rightarrow> turn \<Rightarrow> io \<Rightarrow> line_result" where
  "at_done w request_id pte body max_iterations line t s =
     (if tool_call_buffer t \<noteq> [] then
        (case run_tools w request_id pte (tool_call_buffer t) t [] [] s of
           Inl (e, s') \<Rightarrow> Raised e s'
         | Inr (calls, results, t1, s1) \<Rightarrow>
             (case follow_up_messages w body t1 calls results of
                Inl e \<Rightarrow> Raised e s1
              | Inr messages \<Rightarrow>
                  (let body1 = dict_set body ''messages'' (JArr messages);
                       s2 = snd (send_event w (continuation_event request_id) s1);
                       next_prompt_tokens = prompt_tokens_of w body1;
                       s3 = (if last_usage t1 = None
                             then snd (send_event w
                                    (usage_event (JNum next_prompt_tokens) (JNum 0)
                                       (JNum next_prompt_tokens) True (Some request_id)) s2)
                             else s2)
                   in Finished (Call body1 False (max_iterations - 1) s3))))
      else
        (let u = final_usage w body t;
             s1 = (if has_key u ''prompt_tokens''
                   then snd (send_event w
                          (usage_event (dict_get u ''prompt_tokens'' (JNum 0))
                             (dict_get u ''completion_tokens'' (JNum 0))
                             (dict_get u ''total_tokens'' (JNum 0))
                             (truthy (dict_get u ''estimated'' JNull)) (Some request_id)) s)
                   else s);
             s2 = snd (write_out w (Line line) s1)
         in Finished (Return s2)))"

text \<open>
  Lines 180--380: what one line does before it is forwarded.
  \<^verbatim>\<open>
  if line_str.strip().startswith("data:"):
      data_str = line_str.strip()[5:].strip()
      if data_str == "[DONE]": ...; break
      try:
          chunk = json.loads(data_str); ...
      except json.JSONDecodeError:
          pass
  \<close>
\<close>

definition on_line ::
  "world \<Rightarrow> string \<Rightarrow> int \<Rightarrow> dict \<Rightarrow> int \<Rightarrow> string \<Rightarrow> turn \<Rightarrow> io \<Rightarrow> line_result" where
  "on_line w request_id pte body max_iterations line t s =
     (if startswith (strip line) ''data:'' then
        (let data_str = strip (drop 5 (strip line))
         in if data_str = ''[DONE]''
            then at_done w request_id pte body max_iterations line t s
            else (case loads w data_str of
                    None \<Rightarrow> Forward t s
                  | Some chunk \<Rightarrow>
                      (case process_chunk w request_id pte chunk t s of
                         Inl (e, s') \<Rightarrow> Raised e s'
                       | Inr (t', s') \<Rightarrow> Forward t' s')))
      else Forward t s)"

text \<open>
  Lines 174--393.  The response ends where \<^verbatim>\<open>readline\<close> returns nothing.  A line
  that was processed is forwarded, and the loop stops when that write fails.  Any
  exception is reported by an error event; \<^verbatim>\<open>resp.close()\<close> writes nothing.
  \<^verbatim>\<open>
  try:
      while True:
          line = resp.readline()
          if not line: break
          ...
          if not self._write(line if isinstance(line, bytes) else line.encode("utf-8")):
              break
  except Exception as e:
      self._send_event({"type": "error", "message": f"Streaming error: {e}",
                        "where": "backend", "request_id": request_id})
  finally: ...
  \<close>
\<close>

fun read_loop ::
  "world \<Rightarrow> string \<Rightarrow> int \<Rightarrow> dict \<Rightarrow> int \<Rightarrow> string list \<Rightarrow> turn \<Rightarrow> io \<Rightarrow> outcome" where
  "read_loop w request_id pte body max_iterations [] t s = Return s"
| "read_loop w request_id pte body max_iterations (line # rest) t s =
     (if line = [] then Return s
      else case on_line w request_id pte body max_iterations line t s of
             Raised e s' \<Rightarrow>
               Return (snd (send_event w (streaming_error_event (str_exn w e) request_id) s'))
           | Finished r \<Rightarrow> r
           | Forward t' s' \<Rightarrow>
               (let (ok, s'') = write_out w (Line line) s'
                in if ok then read_loop w request_id pte body max_iterations rest t' s''
                   else Return s''))"

subsection \<open>\<^verbatim>\<open>handle_streaming\<close>\<close>

text \<open>
  Lines 71--77: the override of the budget, run at the start of every invocation.
  \<^verbatim>\<open>
  try:
      env_max = int(os.environ.get("II_AI_MAX_TOOL_ITERATIONS", "") or "0")
      if env_max > 0:
          max_iterations = env_max
  except Exception:
      pass
  \<close>
\<close>

definition effective_max_iterations :: "world \<Rightarrow> int \<Rightarrow> int" where
  "effective_max_iterations w max_iterations =
     (let v = (case environ w ''II_AI_MAX_TOOL_ITERATIONS'' of None \<Rightarrow> [] | Some x \<Rightarrow> x)
      in case int_of_str w (if v = [] then ''0'' else v) of
           None \<Rightarrow> max_iterations
         | Some env_max \<Rightarrow> if env_max > 0 then env_max else max_iterations)"

text \<open>
  One invocation, lines 71--393, up to its return or its recursive call.
\<close>

definition streaming_turn :: "world \<Rightarrow> dict \<Rightarrow> bool \<Rightarrow> int \<Rightarrow> io \<Rightarrow> outcome" where
  "streaming_turn w body is_first max_iterations0 s =
     (let max_iterations = effective_max_iterations w max_iterations0
      in if max_iterations \<le> 0 then
           (let prompt_tokens = prompt_tokens_of w body;
                s1 = snd (send_event w
                       (usage_event (JNum prompt_tokens) (JNum 0) (JNum prompt_tokens) True None) s);
                s2 = snd (send_error w
                       ''Max tool iterations reached (II_AI_MAX_TOOL_ITERATIONS)'' s1);
                s3 = snd (write_out w (Bytes done_literal) s2)
            in Return s3)
         else
           (let request_id = hexstr (time_ms w (clock_reads s));
                s1 = s\<lparr>clock_reads := Suc (clock_reads s)\<rparr>;
                s2 = (if is_first \<and> send_headers w \<and> \<not> headers_sent s1
                      then s1\<lparr>headers_sent := True, header_sends := Suc (header_sends s1)\<rparr>
                      else s1);
                body1 = inject_tools body;
                s3 = s2\<lparr>requests := requests s2 @ [body1]\<rparr>
            in case request_chat_completions w (length (requests s2)) body1 of
                 Inl message \<Rightarrow>
                   (let prompt_tokens = prompt_tokens_of w body1;
                        s4 = snd (send_event w
                               (usage_event (JNum prompt_tokens) (JNum 0) (JNum prompt_tokens)
                                  True (Some request_id)) s3);
                        s5 = snd (send_error w message s4);
                        s6 = snd (write_out w (Bytes done_literal) s5)
                    in Return s6)
               | Inr lines \<Rightarrow>
                   read_loop w request_id (prompt_tokens_of w body1) body1 max_iterations
                     lines turn0 s3))"

text \<open>
  The recursive call chain.  The chain need not end, so the model counts the nested
  invocations it may still make: \<open>None\<close> means that the chain has not returned within
  that many invocations.
\<close>

fun handle_streaming :: "nat \<Rightarrow> world \<Rightarrow> dict \<Rightarrow> bool \<Rightarrow> int \<Rightarrow> io \<Rightarrow> io option" where
  "handle_streaming 0 w body is_first max_iterations s = None"
| "handle_streaming (Suc depth) w body is_first max_iterations s =
     (case streaming_turn w body is_first max_iterations s of
        Return s' \<Rightarrow> Some s'
      | Call body' is_first' max_iterations' s' \<Rightarrow>
          handle_streaming depth w body' is_first' max_iterations' s')"

subsection \<open>\<^verbatim>\<open>handle_non_streaming\<close>\<close>











section \<open>Notions used to state the properties\<close>

subsection \<open>What a tool-call delta carries\<close>

text \<open>
  A delta fragment is well formed for a buffer key when it is an object whose index
  formats to that key, whose \<^verbatim>\<open>function\<close> is an object (or absent), and whose
  \<^verbatim>\<open>arguments\<close> is a string (or absent, or empty).
\<close>

definition carried_id :: "json \<Rightarrow> json" where
  "carried_id tc = (case tc of JObj d \<Rightarrow> dict_get d ''id'' JNull | _ \<Rightarrow> JNull)"

definition carried_function :: "json \<Rightarrow> json" where
  "carried_function tc =
     (case tc of JObj d \<Rightarrow> dict_get d ''function'' (JObj []) | _ \<Rightarrow> JNull)"

definition carried_name :: "json \<Rightarrow> json" where
  "carried_name tc =
     (case carried_function tc of JObj f \<Rightarrow> dict_get f ''name'' JNull | _ \<Rightarrow> JNull)"

definition carried_arguments :: "json \<Rightarrow> string" where
  "carried_arguments tc =
     (case carried_function tc of
        JObj f \<Rightarrow> (case dict_get f ''arguments'' JNull of JStr a \<Rightarrow> a | _ \<Rightarrow> [])
      | _ \<Rightarrow> [])"

definition well_formed_fragment :: "world \<Rightarrow> string \<Rightarrow> json \<Rightarrow> bool" where
  "well_formed_fragment w key tc =
     (buffer_key w tc = Inr key \<and>
      (case carried_function tc of
         JObj f \<Rightarrow> (case dict_get f ''arguments'' JNull of
                      JStr a \<Rightarrow> True
                    | a \<Rightarrow> \<not> truthy a)
       | _ \<Rightarrow> False))"

text \<open>
  The reassembly the specification describes: the last non-empty id and name, and the
  argument substrings concatenated in arrival order, on top of an entry \<open>e\<close>.
\<close>

definition last_truthy :: "json list \<Rightarrow> json option" where
  "last_truthy xs =
     (case filter truthy xs of [] \<Rightarrow> None | y # ys \<Rightarrow> Some (last (y # ys)))"

definition reassembled :: "fragment \<Rightarrow> json list \<Rightarrow> fragment" where
  "reassembled e fs =
     e\<lparr>tc_id := (case last_truthy (map carried_id fs) of None \<Rightarrow> tc_id e | Some i \<Rightarrow> i),
       tc_name := (case last_truthy (map carried_name fs) of None \<Rightarrow> tc_name e | Some n \<Rightarrow> n),
       args_str := args_str e @ concat (map carried_arguments fs)\<rparr>"

subsection \<open>Reading the log\<close>

text \<open>The state an outcome carries.\<close>

fun outcome_io :: "outcome \<Rightarrow> io" where
  "outcome_io (Return s) = s"
| "outcome_io (Call body is_first max_iterations s) = s"

text \<open>
  \<open>appended P s s'\<close>: the log of \<open>s'\<close> is the log of \<open>s\<close> followed by writes that
  all satisfy \<open>P\<close>.
\<close>

definition appended :: "(wr \<Rightarrow> bool) \<Rightarrow> io \<Rightarrow> io \<Rightarrow> bool" where
  "appended P s s' =
     (take (length (out s)) (out s') = out s
      \<and> list_all P (map fst (drop (length (out s)) (out s'))))"

text \<open>The top-level field of an event, and the kinds of writes the claims speak of.\<close>

definition event_field :: "string \<Rightarrow> wr \<Rightarrow> json option" where
  "event_field k x = (case x of Event (JObj d) \<Rightarrow> map_of d k | _ \<Rightarrow> None)"

definition request_id_of :: "wr \<Rightarrow> json option" where
  "request_id_of x = event_field ''request_id'' x"

definition is_event_of_type :: "string \<Rightarrow> wr \<Rightarrow> bool" where
  "is_event_of_type ty x = (event_field ''type'' x = Some (JStr ty))"

definition estimated_usage :: "wr \<Rightarrow> bool" where
  "estimated_usage x =
     (is_event_of_type ''usage'' x
      \<and> (case event_field ''estimated'' x of Some v \<Rightarrow> truthy v | None \<Rightarrow> False))"

definition is_line :: "wr \<Rightarrow> bool" where
  "is_line x = (case x of Line l \<Rightarrow> True | _ \<Rightarrow> False)"

text \<open>
  A line of the stream whose chunk carries an upstream \<^verbatim>\<open>usage\<close> object.
\<close>

definition usage_line :: "world \<Rightarrow> string \<Rightarrow> bool" where
  "usage_line w line =
     (line \<noteq> [] \<and> startswith (strip line) ''data:''
      \<and> strip (drop 5 (strip line)) \<noteq> ''[DONE]''
      \<and> (case loads w (strip (drop 5 (strip line))) of
            None \<Rightarrow> False
          | Some chunk \<Rightarrow> upstream_usage chunk \<noteq> None))"

text \<open>A line whose payload is the \<^verbatim>\<open>[DONE]\<close> marker.\<close>

definition done_line :: "string \<Rightarrow> bool" where
  "done_line line =
     (line \<noteq> [] \<and> startswith (strip line) ''data:''
      \<and> strip (drop 5 (strip line)) = ''[DONE]'')"

text \<open>
  The log with every write marked as having gone through, and a world whose client
  never breaks the connection.
\<close>

definition all_delivered :: "io \<Rightarrow> io" where
  "all_delivered s = s\<lparr>out := map (\<lambda>p. (fst p, True)) (out s)\<rparr>"

fun outcome_delivered :: "outcome \<Rightarrow> outcome" where
  "outcome_delivered (Return s) = Return (all_delivered s)"
| "outcome_delivered (Call body is_first max_iterations s) =
     Call body is_first max_iterations (all_delivered s)"

definition patient_client :: "world \<Rightarrow> world" where
  "patient_client w = w\<lparr>wfile_ok := (\<lambda>n. True)\<rparr>"

subsection \<open>The writes of one invocation\<close>

text \<open>
  \<open>real_usage t\<close>: the turn has recorded an upstream usage object (not an estimate).
  \<open>turn_write request_id est x\<close>: \<open>x\<close> is a write the read loop of an invocation with
  that request id can make; estimated usage events are among them only if \<open>est\<close>.
\<close>

definition real_usage :: "turn \<Rightarrow> bool" where
  "real_usage t =
     (case last_usage t of
        None \<Rightarrow> False
      | Some u \<Rightarrow> \<not> truthy (dict_get u ''estimated'' JNull))"

definition turn_write :: "string \<Rightarrow> bool \<Rightarrow> wr \<Rightarrow> bool" where
  "turn_write request_id est x =
     (is_line x
      \<or> (\<exists>i nm args. x = Event (tool_execution_event i nm args))
      \<or> (\<exists>i nm args r. x = Event (tool_result_event i nm args r))
      \<or> x = Event (continuation_event request_id)
      \<or> (\<exists>m. x = Event (streaming_error_event m request_id))
      \<or> (\<exists>a b c e. x = Event (usage_event a b c e (Some request_id)) \<and> (e \<longrightarrow> est)))"

text \<open>The buffered calls that have a name, and the invocation each one stands for.\<close>

definition named :: "buffer \<Rightarrow> buffer" where
  "named buf = filter (\<lambda>p. truthy (tc_name (snd p))) buf"




fun line_delivered :: "line_result \<Rightarrow> line_result" where
  "line_delivered (Raised e s) = Raised e (all_delivered s)"
| "line_delivered (Finished r) = Finished (outcome_delivered r)"
| "line_delivered (Forward t s) = Forward t (all_delivered s)"

text \<open>Every forwarded upstream line of a log went through.\<close>

definition lines_delivered :: "io \<Rightarrow> bool" where
  "lines_delivered s = list_all (\<lambda>p. is_line (fst p) \<longrightarrow> snd p) (out s)"

section \<open>Sample worlds\<close>

text \<open>
  Concrete collaborators for the concrete runs below.  The sample \<open>loads\<close> parses
  exactly the payloads listed; every clock reading is one second after the previous one;
  every tool succeeds with the output \<^verbatim>\<open>ok\<close>; the client takes every write.
\<close>

function decstr :: "nat \<Rightarrow> string" where
  "decstr n =
     (if n < 10 then [''0123456789'' ! n]
      else decstr (n div 10) @ [''0123456789'' ! (n mod 10)])"
  by pat_completeness auto
termination
  by (relation "measure id") auto

declare decstr.simps [simp del]

definition choices_delta :: "dict \<Rightarrow> json" where
  "choices_delta delta = JObj [(''choices'', JArr [JObj [(''delta'', JObj delta)]])]"

definition tool_call_fragment :: "int \<Rightarrow> string \<Rightarrow> string \<Rightarrow> string \<Rightarrow> json" where
  "tool_call_fragment idx i nm args =
     JObj [(''index'', JNum idx), (''id'', JStr i),
           (''function'', JObj [(''name'', JStr nm), (''arguments'', JStr args)])]"

definition payloads :: "(string \<times> json) list" where
  \<open>payloads =
     [(''{"choices":[{"delta":{"content":"hi"}}]}'',
         choices_delta [(''content'', JStr ''hi'')]),
      (''{"choices":[{"delta":{"tool_calls":[{"index":0,"id":"a","function":{"name":"f","arguments":"{}"}}]}}]}'',
         choices_delta [(''tool_calls'', JArr [tool_call_fragment 0 ''a'' ''f'' ''{}''])]),
      (''{"choices":[{"delta":{"tool_calls":[{"index":1,"id":"b","function":{"name":"g","arguments":"{}"}}]}}]}'',
         choices_delta [(''tool_calls'', JArr [tool_call_fragment 1 ''b'' ''g'' ''{}''])]),
      (''{"choices":[{"delta":{"tool_calls":[{"index":0}]}}]}'',
         choices_delta [(''tool_calls'', JArr [JObj [(''index'', JNum 0)]])]),
      (''{"usage":{"prompt_tokens":7,"completion_tokens":2,"total_tokens":9},"choices":[{"delta":{}}]}'',
         JObj [(''usage'', JObj [(''prompt_tokens'', JNum 7), (''completion_tokens'', JNum 2),
                                 (''total_tokens'', JNum 9)]),
               (''choices'', JArr [JObj [(''delta'', JObj [])]])]),
      (''{"choices":[{"message":{"role":"assistant","tool_calls":[{"id":"a","function":{"name":"f","arguments":"{}"}}]}}]}'',
         JObj [(''choices'', JArr [JObj [(''message'',
            JObj [(''role'', JStr ''assistant''),
                  (''tool_calls'', JArr [JObj [(''id'', JStr ''a''),
                     (''function'', JObj [(''name'', JStr ''f''),
                                          (''arguments'', JStr ''{}'')])]])])]])]),
      (''{}'', JObj []),
      (''5'', JNum 5)]\<close>

definition data_line :: "string \<Rightarrow> string" where
  "data_line p = ''data: '' @ p @ [CHR 0x0A]"

definition sample_str_of :: "json \<Rightarrow> string" where
  "sample_str_of j =
     (case j of
        JNum n \<Rightarrow> (if n < 0 then ''-'' @ decstr (nat (- n)) else decstr (nat n))
      | JStr s \<Rightarrow> s
      | JNull \<Rightarrow> ''None''
      | JBool b \<Rightarrow> (if b then ''True'' else ''False'')
      | _ \<Rightarrow> ''?'')"

definition sample_result :: dict where
  "sample_result = [(''success'', JBool True), (''output'', JStr ''ok''), (''error'', JNull)]"

definition demo :: world where
  "demo = \<lparr>loads = map_of payloads,
            dumps = (\<lambda>j. ''{}''),
            dumps_unicode = (\<lambda>j. ''{}''),
            str_of = sample_str_of,
            str_exn = (\<lambda>e. ''error''),
            environ = (\<lambda>k. None),
            int_of_str = (\<lambda>s. if s = ''0'' then Some 0 else if s = ''1'' then Some 1 else None),
            time_ms = (\<lambda>n. 1000 * (n + 1)),
            execute_tool = (\<lambda>n nm args. Inr sample_result),
            request_chat_completions = (\<lambda>n body. Inr []),
            wfile_ok = (\<lambda>n. True),
            send_headers = True\<rparr>"

definition body0 :: dict where
  "body0 = [(''messages'', JArr [JObj [(''role'', JStr ''user''), (''content'', JStr ''hi'')]]),
            (''stream'', JBool True)]"

text \<open>
  One call, \<^verbatim>\<open>run_shell_command\<close> with \<^verbatim>\<open>{"command":"echo hi"}\<close>, split
  across three deltas and in one piece.
\<close>

definition three_deltas :: "json list" where
  \<open>three_deltas =
     [tool_call_fragment 0 ''call_1'' ''run_shell_command'' [],
      tool_call_fragment 0 [] [] ''{"command":'',
      tool_call_fragment 0 [] [] ''"echo hi"}'']\<close>

definition one_delta :: "json list" where
  \<open>one_delta =
     [tool_call_fragment 0 ''call_1'' ''run_shell_command'' ''{"command":"echo hi"}'']\<close>

text \<open>
  Upstream scripts.  \<open>tool_then_answer\<close>: the first response streams one tool call and
  \<^verbatim>\<open>[DONE]\<close>, every later one a content delta and \<^verbatim>\<open>[DONE]\<close>.
  \<open>override_world\<close>: the same with \<^verbatim>\<open>II_AI_MAX_TOOL_ITERATIONS=1\<close> in the
  environment.  \<open>broken_chunk_world\<close>: the response carries the JSON number 5 as a
  chunk.  \<open>reversed_indices_world\<close>: the first response streams the call with index 1
  before the call with index 0.
\<close>

definition answer_lines :: "string list" where
  "answer_lines = [data_line (fst (payloads ! 0)), data_line ''[DONE]'']"

definition tool_then_answer :: world where
  "tool_then_answer = demo\<lparr>request_chat_completions := (\<lambda>n body.
      if n = 0 then Inr [data_line (fst (payloads ! 1)), data_line ''[DONE]'']
      else Inr answer_lines)\<rparr>"

definition override_world :: world where
  "override_world = tool_then_answer\<lparr>environ :=
      (\<lambda>k. if k = ''II_AI_MAX_TOOL_ITERATIONS'' then Some ''1'' else None)\<rparr>"

definition broken_chunk_world :: world where
  "broken_chunk_world = demo\<lparr>request_chat_completions := (\<lambda>n body.
      Inr [data_line ''5'', data_line ''[DONE]''])\<rparr>"


text \<open>
  \<open>unnamed_call_world\<close>: the first response streams a tool-call delta that carries an
  index only, so the buffer gets an entry without a name.
\<close>

definition unnamed_call_world :: world where
  "unnamed_call_world = demo\<lparr>request_chat_completions := (\<lambda>n body.
      if n = 0 then Inr [data_line (fst (payloads ! 3)), data_line ''[DONE]'']
      else Inr answer_lines)\<rparr>"

definition unnamed_turn :: turn where
  "unnamed_turn = turn0\<lparr>tool_call_buffer := [(''idx:0'', empty_fragment)]\<rparr>"


text \<open>
  \<open>deaf_client_world\<close>: the conversation of \<open>tool_then_answer\<close> with a client on
  which every write fails except the second one, the forwarded upstream line.
\<close>

definition deaf_client_world :: world where
  "deaf_client_world = tool_then_answer\<lparr>wfile_ok := (\<lambda>n. n = 1)\<rparr>"


text \<open>
  \<open>looping_world\<close>: \<^verbatim>\<open>II_AI_MAX_TOOL_ITERATIONS=1\<close> in the environment and an
  upstream that streams the same tool call in every response.
\<close>

definition looping_world :: world where
  "looping_world = demo\<lparr>
      environ := (\<lambda>k. if k = ''II_AI_MAX_TOOL_ITERATIONS'' then Some ''1'' else None),
      request_chat_completions := (\<lambda>n body.
        Inr [data_line (fst (payloads ! 1)), data_line ''[DONE]''])\<rparr>"

section \<open>Properties\<close>

subsection \<open>The estimator\<close>

lemma ceiling_quarter: "\<lceil>real n / 4\<rceil> = (int n + 3) div 4"
proof -
  have "\<lceil>real n / 4\<rceil> = \<lceil>real_of_int (int n) / real_of_int 4\<rceil>"
    by simp
  also have "\<dots> = - ((- int n) div 4)"
    by (simp only: ceiling_divide_eq_div)
  also have "\<dots> = (int n + 3) div 4"
    by presburger
  finally show ?thesis .
qed

text \<open>
  Claim C8.  The estimator maps the empty text to 0, every non-empty text \<open>s\<close> to
  \<open>max 1 (ceil (len s / 4))\<close>, and never decreases when the text gets longer.
\<close>

theorem estimate_tokens_spec:
  "estimate_tokens [] = 0
   \<and> (s \<noteq> [] \<longrightarrow> estimate_tokens s = max 1 \<lceil>real (length s) / 4\<rceil>)
   \<and> (length s1 \<le> length s2 \<longrightarrow> estimate_tokens s1 \<le> estimate_tokens s2)"
proof (intro conjI impI)
  show "estimate_tokens [] = 0"
    by (simp add: estimate_tokens_def)
next
  assume "s \<noteq> []"
  then show "estimate_tokens s = max 1 \<lceil>real (length s) / 4\<rceil>"
    by (simp only: estimate_tokens_def ceiling_quarter if_False)
next
  assume le: "length s1 \<le> length s2"
  show "estimate_tokens s1 \<le> estimate_tokens s2"
  proof (cases "s1 = []")
    case True
    have "(0::int) \<le> max 1 ((int (length s2) + 3) div 4)"
      by (rule max.coboundedI1) simp
    with True show ?thesis by (simp add: estimate_tokens_def)
  next
    case False
    with le have "s2 \<noteq> []" by auto
    moreover from le have "(int (length s1) + 3) div 4 \<le> (int (length s2) + 3) div 4"
      by (intro zdiv_mono1) simp_all
    ultimately show ?thesis
      using False by (simp add: estimate_tokens_def max.coboundedI2)
  qed
qed

theorem estimate_tokens_spec_witness:
  "estimate_tokens [] = 0
   \<and> ''abcde'' \<noteq> [] \<and> estimate_tokens ''abcde'' = 2
   \<and> length ''ab'' \<le> length ''abcde'' \<and> estimate_tokens ''ab'' \<le> estimate_tokens ''abcde''"
  using estimate_tokens_spec [of "''abcde''" "''ab''" "''abcde''"]
  by (simp add: estimate_tokens_def)

subsection \<open>Dictionaries\<close>

lemma has_key_simps [simp]:
  "has_key [] k = False"
  "has_key ((k', v) # d) k = (k' = k \<or> has_key d k)"
  by (auto simp: has_key_def)

lemma dict_get_simps [simp]:
  "dict_get [] k x = x"
  "dict_get ((k', v) # d) k x = (if k' = k then v else dict_get d k x)"
  by (auto simp: dict_get_def)

lemma has_key_dict_set [simp]: "has_key (dict_set d k v) k' = (k' = k \<or> has_key d k')"
  by (induction d) (auto split: if_splits)

lemma dict_get_dict_set [simp]:
  "dict_get (dict_set d k v) k' x = (if k' = k then v else dict_get d k' x)"
  by (induction d) auto

lemma dict_set_twice [simp]: "dict_set (dict_set d k v) k v' = dict_set d k v'"
  by (induction d) auto

lemma dict_set_same: "has_key d k \<Longrightarrow> dict_set d k (dict_get d k x) = d"
  by (induction d) auto

lemma map_of_dict_set: "map_of (dict_set d k v) = (map_of d)(k \<mapsto> v)"
  by (induction d) (auto simp: fun_eq_iff)

lemma dict_get_absent: "\<not> has_key d k \<Longrightarrow> dict_get d k x = x"
  by (induction d) auto


subsection \<open>Reassembly of fragmented tool calls\<close>

lemma merge_tool_call_well_formed:
  assumes "well_formed_fragment w key tc"
  shows "merge_tool_call w buf tc =
           Inr (dict_set buf key (reassembled (dict_get buf key empty_fragment) [tc]))"
proof -
  from assms obtain d where tc: "tc = JObj d"
    by (cases tc) (auto simp: well_formed_fragment_def buffer_key_def py_get_def bindE_def)
  from assms tc obtain f where f: "dict_get d ''function'' (JObj []) = JObj f"
    by (auto simp: well_formed_fragment_def carried_function_def split: json.splits)
  from assms tc have key: "buffer_key w (JObj d) = Inr key"
    by (simp add: well_formed_fragment_def)
  from assms tc f
  have a: "(\<exists>s. dict_get f ''arguments'' JNull = JStr s)
             \<or> \<not> truthy (dict_get f ''arguments'' JNull)"
    by (auto simp: well_formed_fragment_def carried_function_def split: json.splits)
  show ?thesis
  proof (cases "has_key buf key")
    case True
    with a show ?thesis
      by (cases "dict_get f ''arguments'' JNull")
         (auto simp: merge_tool_call_def key tc f bindE_def py_get_def Let_def reassembled_def
            last_truthy_def carried_id_def carried_name_def carried_arguments_def
            carried_function_def dict_set_same)
  next
    case False
    with a show ?thesis
      by (cases "dict_get f ''arguments'' JNull")
         (auto simp: merge_tool_call_def key tc f bindE_def py_get_def Let_def reassembled_def
            last_truthy_def carried_id_def carried_name_def carried_arguments_def
            carried_function_def dict_get_absent)
  qed
qed

lemma reassembled_Nil [simp]: "reassembled e [] = e"
  by (simp add: reassembled_def last_truthy_def)

lemma reassembled_Cons: "reassembled (reassembled e [tc]) tcs = reassembled e (tc # tcs)"
  by (cases "truthy (carried_id tc)"; cases "truthy (carried_name tc)")
     (auto simp: reassembled_def last_truthy_def split: list.splits)

lemma merge_tool_calls_well_formed:
  assumes "\<forall>tc \<in> set fs. well_formed_fragment w key tc" and "fs \<noteq> []"
  shows "merge_tool_calls w buf fs =
           Inr (dict_set buf key (reassembled (dict_get buf key empty_fragment) fs))"
  using assms
proof (induction fs arbitrary: buf)
  case Nil
  then show ?case by simp
next
  case (Cons tc tcs)
  show ?case
  proof (cases "tcs = []")
    case True
    with Cons.prems show ?thesis
      by (simp add: merge_tool_call_well_formed [of w key tc] bindE_def)
  next
    case False
    with Cons show ?thesis
      by (simp add: merge_tool_call_well_formed [of w key tc] bindE_def reassembled_Cons)
  qed
qed

text \<open>
  Claim C2.  Two sequences of well-formed fragments for one buffer key (both empty or both
  non-empty) whose argument substrings concatenate to the same string and whose last
  non-empty id and name agree are merged without an exception and leave equal buffer
  entries under that key: the entry is the reassembly of the specification.
\<close>

theorem fragmentation_invariance:
  assumes "\<forall>tc \<in> set fs. well_formed_fragment w key tc"
    and "\<forall>tc \<in> set gs. well_formed_fragment w key tc"
    and "(fs = []) = (gs = [])"
    and "concat (map carried_arguments fs) = concat (map carried_arguments gs)"
    and "last_truthy (map carried_id fs) = last_truthy (map carried_id gs)"
    and "last_truthy (map carried_name fs) = last_truthy (map carried_name gs)"
  shows "\<exists>b1 b2. merge_tool_calls w buf fs = Inr b1 \<and> merge_tool_calls w buf gs = Inr b2
           \<and> map_of b1 key = map_of b2 key
           \<and> (fs \<noteq> [] \<longrightarrow>
                map_of b1 key = Some (reassembled (dict_get buf key empty_fragment) fs))"
proof (cases "fs = []")
  case True
  with assms(3) show ?thesis by simp
next
  case False
  with assms(3) have "gs \<noteq> []" by simp
  with False assms show ?thesis
    by (simp add: merge_tool_calls_well_formed map_of_dict_set reassembled_def)
qed

lemma sample_fragments_well_formed:
  "well_formed_fragment demo ''idx:0'' (tool_call_fragment 0 i nm a)"
  by (simp add: well_formed_fragment_def buffer_key_def py_get_def bindE_def demo_def
      tool_call_fragment_def sample_str_of_def decstr.simps carried_function_def)

theorem fragmentation_invariance_witness:
  \<open>list_all (well_formed_fragment demo ''idx:0'') three_deltas
   \<and> list_all (well_formed_fragment demo ''idx:0'') one_delta
   \<and> concat (map carried_arguments three_deltas) = concat (map carried_arguments one_delta)
   \<and> (\<exists>b1 b2. merge_tool_calls demo [] three_deltas = Inr b1
         \<and> merge_tool_calls demo [] one_delta = Inr b2
         \<and> map_of b1 ''idx:0'' = map_of b2 ''idx:0''
         \<and> map_of b1 ''idx:0'' =
             Some \<lparr>tc_id = JStr ''call_1'', tc_name = JStr ''run_shell_command'',
                   args_str = ''{"command":"echo hi"}''\<rparr>)\<close>
proof -
  have wf3: "\<forall>tc \<in> set three_deltas. well_formed_fragment demo ''idx:0'' tc"
    by (simp add: three_deltas_def sample_fragments_well_formed)
  have wf1: "\<forall>tc \<in> set one_delta. well_formed_fragment demo ''idx:0'' tc"
    by (simp add: one_delta_def sample_fragments_well_formed)
  have ne: "(three_deltas = []) = (one_delta = [])"
    by (simp add: three_deltas_def one_delta_def)
  have args: "concat (map carried_arguments three_deltas)
                = concat (map carried_arguments one_delta)"
    by (simp add: three_deltas_def one_delta_def carried_arguments_def carried_function_def
        tool_call_fragment_def)
  have ids: "last_truthy (map carried_id three_deltas) = last_truthy (map carried_id one_delta)"
    by (simp add: three_deltas_def one_delta_def carried_id_def tool_call_fragment_def
        last_truthy_def)
  have names: "last_truthy (map carried_name three_deltas)
                 = last_truthy (map carried_name one_delta)"
    by (simp add: three_deltas_def one_delta_def carried_name_def carried_function_def
        tool_call_fragment_def last_truthy_def)
  have entry: "reassembled empty_fragment three_deltas =
                 \<lparr>tc_id = JStr ''call_1'', tc_name = JStr ''run_shell_command'',
                   args_str = ''{\"command\":\"echo hi\"}''\<rparr>"
    by (simp add: reassembled_def empty_fragment_def three_deltas_def carried_id_def
        carried_name_def carried_arguments_def carried_function_def tool_call_fragment_def
        last_truthy_def)
  from fragmentation_invariance [OF wf3 wf1 ne args ids names, of "[]"] wf3 wf1 args entry
  show ?thesis
    by (simp add: list_all_iff three_deltas_def)
qed

subsection \<open>Concrete runs\<close>

lemmas run_defs =
  streaming_turn_def effective_max_iterations_def Let_def send_event_def send_error_def
  write_out_def io0_def prompt_tokens_of_def estimate_tokens_def usage_event_def
  inject_tools_def on_line_def startswith_def strip_def is_space_def data_line_def
  process_chunk_def upstream_usage_def chunk_delta_def bindE_def py_get_def
  streaming_error_event_def turn0_def collect_def maybe_emit_usage_estimate_def at_done_def
  final_usage_def body0_def payloads_def choices_delta_def tool_call_fragment_def
  merge_tool_call_def buffer_key_def empty_fragment_def parsed_args_def
  tool_call_message_def tool_execution_event_def tool_result_event_def tool_call_view_def
  follow_up_messages_def assistant_message_def tool_output_def tool_message_def
  continuation_event_def demo_def sample_str_of_def sample_result_def answer_lines_def
  hexstr.simps decstr.simps numeral_2_eq_2 done_literal_def

lemmas log_defs = is_event_of_type_def event_field_def request_id_of_def

subsection \<open>The iteration budget\<close>

text \<open>
  Where the budget check of line 79 fires, the invocation writes the usage estimate, one
  error event and one \<^verbatim>\<open>data: [DONE]\<close> literal, and returns.
\<close>

lemma budget_exhausted_turn:
  assumes "effective_max_iterations w max_iterations \<le> 0"
  shows "streaming_turn w body is_first max_iterations s =
           Return (s\<lparr>out := out s @
             [(Event (usage_event (JNum (prompt_tokens_of w body)) (JNum 0)
                        (JNum (prompt_tokens_of w body)) True None),
               wfile_ok w (length (out s))),
              (Event (JObj [(''type'', JStr ''error''),
                            (''message'',
                             JStr ''Max tool iterations reached (II_AI_MAX_TOOL_ITERATIONS)'')]),
               wfile_ok w (Suc (length (out s)))),
              (Bytes done_literal, wfile_ok w (Suc (Suc (length (out s)))))]\<rparr>)"
  using assms
  by (simp add: streaming_turn_def Let_def send_event_def send_error_def write_out_def)

text \<open>
  Without the environment override the budget is enforced: with a budget of 1 the sample
  conversation makes one upstream request and then reports the exhausted budget.
\<close>

lemma budget_enforced_without_override:
  "map_option (\<lambda>s. (length (requests s),
                     filter (is_event_of_type ''error'') (map fst (out s)), last (out s)))
     (handle_streaming 2 tool_then_answer body0 True 1 io0)
   = Some (1, [Event (JObj [(''type'', JStr ''error''),
                  (''message'', JStr ''Max tool iterations reached (II_AI_MAX_TOOL_ITERATIONS)'')])],
           (Bytes done_literal, True))"
  by (simp add: tool_then_answer_def run_defs log_defs)

text \<open>
  Claim C1, at the failing input.  With \<^verbatim>\<open>II_AI_MAX_TOOL_ITERATIONS=1\<close> in the
  environment and a budget of 1, the same conversation makes two upstream requests and
  never reports an exhausted budget: the override of lines 71--77 runs again in the
  recursive call and undoes the decrement of line 295.
\<close>

theorem budget_reset_by_override:
  "map_option (\<lambda>s. (length (requests s),
                     filter (is_event_of_type ''error'') (map fst (out s))))
     (handle_streaming 2 override_world body0 True 1 io0) = Some (2, [])"
  by (simp add: override_world_def tool_then_answer_def run_defs log_defs)

subsection \<open>Fatal paths and the \<^verbatim>\<open>[DONE]\<close> sentinel\<close>

text \<open>
  A failed upstream request (also the one of a continuation) ends with the
  \<^verbatim>\<open>data: [DONE]\<close> literal.
\<close>

lemma upstream_failure_turn:
  assumes "0 < effective_max_iterations w max_iterations"
    and "request_chat_completions w (length (requests s)) (inject_tools body) = Inl message"
  shows "\<exists>s'. streaming_turn w body is_first max_iterations s = Return s'
           \<and> last (out s') = (Bytes done_literal, wfile_ok w (Suc (Suc (length (out s)))))"
  using assms
  by (simp add: streaming_turn_def Let_def send_event_def send_error_def write_out_def)

text \<open>
  Claim C3, at the failing input.  The upstream streams the chunk \<^verbatim>\<open>data: 5\<close>:
  \<^verbatim>\<open>chunk.get\<close> raises \<^verbatim>\<open>AttributeError\<close>, the handler of line 386 sends one
  error event, and the invocation returns.  Nothing else is written: no
  \<^verbatim>\<open>data: [DONE]\<close>.
\<close>

theorem read_loop_exception_without_done:
  "map_option (\<lambda>s. map fst (out s)) (handle_streaming 1 broken_chunk_world body0 True 10 io0)
     = Some [Event (streaming_error_event ''error'' ''3e8'')]"
  by (simp add: broken_chunk_world_def run_defs)

subsection \<open>The request id\<close>

text \<open>
  Claim C4 as stated fails: in the sample conversation the events of the first
  invocation carry the request id \<^verbatim>\<open>3e8\<close> (the clock read 1000) and those of the
  continuation carry \<^verbatim>\<open>1388\<close> (the clock read 5000 when the continuation began).
\<close>

theorem request_id_changes_counterexample:
  "map_option (\<lambda>s. remdups (List.map_filter request_id_of (map fst (out s))))
     (handle_streaming 2 tool_then_answer body0 True 10 io0)
   = Some [JStr ''3e8'', JStr ''1388'']"
  by (simp add: tool_then_answer_def run_defs log_defs List.map_filter_simps)

subsection \<open>The order of tool execution\<close>


subsection \<open>What an invocation appends to the log\<close>

lemma appendedI:
  "out s' = out s @ new \<Longrightarrow> list_all P (map fst new) \<Longrightarrow> appended P s s'"
  by (simp add: appended_def)

lemma appendedE:
  assumes "appended P s s'"
  obtains new where "out s' = out s @ new" and "list_all P (map fst new)"
proof
  show "out s' = out s @ drop (length (out s)) (out s')"
    using assms by (metis append_take_drop_id appended_def)
  show "list_all P (map fst (drop (length (out s)) (out s')))"
    using assms by (simp add: appended_def)
qed

lemma appended_refl [simp]: "appended P s s"
  by (simp add: appended_def)

lemma appended_trans:
  assumes "appended P s s'" and "appended P s' s''"
  shows "appended P s s''"
proof -
  from assms(1) obtain a where a: "out s' = out s @ a" "list_all P (map fst a)"
    by (rule appendedE)
  from assms(2) obtain b where b: "out s'' = out s' @ b" "list_all P (map fst b)"
    by (rule appendedE)
  show ?thesis
    by (rule appendedI [where new = "a @ b"]) (simp_all add: a b)
qed

lemma appended_mono:
  assumes "appended P s s'" and "\<And>x. P x \<Longrightarrow> Q x"
  shows "appended Q s s'"
  using assms by (auto simp: appended_def list_all_iff)

lemma appended_write:
  assumes "appended P s s'" and "P x"
  shows "appended P s (snd (write_out w x s'))"
proof -
  from assms(1) obtain a where a: "out s' = out s @ a" "list_all P (map fst a)"
    by (rule appendedE)
  show ?thesis
    by (rule appendedI [where new = "a @ [(x, wfile_ok w (length (out s')))]"])
       (simp_all add: write_out_def Let_def a assms(2))
qed

lemma appended_send:
  "appended P s s' \<Longrightarrow> P (Event e) \<Longrightarrow> appended P s (snd (send_event w e s'))"
  by (simp add: send_event_def appended_write)

lemma appended_same_out: "appended P s s' \<Longrightarrow> out s'' = out s' \<Longrightarrow> appended P s s''"
  by (simp add: appended_def)

lemma turn_write_line [simp]: "turn_write request_id est (Line l)"
  by (simp add: turn_write_def is_line_def)

lemma turn_write_execution [simp]:
  "turn_write request_id est (Event (tool_execution_event i nm args))"
  unfolding turn_write_def by blast

lemma turn_write_result [simp]:
  "turn_write request_id est (Event (tool_result_event i nm args r))"
  unfolding turn_write_def by blast

lemma turn_write_continuation [simp]:
  "turn_write request_id est (Event (continuation_event request_id))"
  unfolding turn_write_def by blast

lemma turn_write_error [simp]:
  "turn_write request_id est (Event (streaming_error_event m request_id))"
  unfolding turn_write_def by blast

lemma turn_write_usage:
  "(e \<longrightarrow> est) \<Longrightarrow> turn_write request_id est (Event (usage_event a b c e (Some request_id)))"
  unfolding turn_write_def by blast

lemma maybe_emit_appended:
  assumes "est \<or> real_usage t"
    and "maybe_emit_usage_estimate w request_id pte force t s = (t', s')"
  shows "appended (turn_write request_id est) s s'"
    and "last_usage t' = last_usage t"
    and "tool_call_buffer t' = tool_call_buffer t"
    and "collected_content t' = collected_content t"
    and "collected_reasoning t' = collected_reasoning t"
    and "tool_runs s' = tool_runs s"
proof -
  have est: "last_usage t = None \<Longrightarrow> est"
    using assms(1) by (auto simp: real_usage_def)
  show "appended (turn_write request_id est) s s'"
    using assms(2) est
    by (auto simp: maybe_emit_usage_estimate_def Let_def split: if_splits
        intro!: appended_send turn_write_usage intro: appended_same_out [OF appended_refl])
  show "last_usage t' = last_usage t" "tool_call_buffer t' = tool_call_buffer t"
    "collected_content t' = collected_content t"
    "collected_reasoning t' = collected_reasoning t"
    using assms(2)
    by (auto simp: maybe_emit_usage_estimate_def Let_def split: if_splits)
  show "tool_runs s' = tool_runs s"
    using assms(2)
    by (auto simp: maybe_emit_usage_estimate_def Let_def send_event_def write_out_def
        split: if_splits)
qed

lemma maybe_emit_with_usage:
  "last_usage t \<noteq> None \<Longrightarrow> maybe_emit_usage_estimate w request_id pte force t s = (t, s)"
  by (simp add: maybe_emit_usage_estimate_def)

lemma real_usage_upstream:
  "upstream_usage chunk = Some u \<Longrightarrow> real_usage (t\<lparr>last_usage := Some u\<rparr>)"
  by (auto simp: upstream_usage_def real_usage_def split: json.splits)

lemma process_chunk_appended:
  assumes "est \<or> real_usage t"
  shows "case process_chunk w request_id pte chunk t s of
           Inl (e, s') \<Rightarrow> appended (turn_write request_id est) s s'
         | Inr (t', s') \<Rightarrow>
             appended (turn_write request_id est) s s' \<and> (est \<or> real_usage t')"
proof -
  define t1 where
    "t1 = (case upstream_usage chunk of None \<Rightarrow> t | Some u \<Rightarrow> t\<lparr>last_usage := Some u\<rparr>)"
  have inv1: "est \<or> real_usage t1"
    using assms by (auto simp: t1_def real_usage_upstream split: option.splits)
  have step: "appended (turn_write request_id est) s s1 \<and> (est \<or> real_usage t3)"
    if "maybe_emit_usage_estimate w request_id pte False
          (t1\<lparr>collected_content := c, collected_reasoning := r\<rparr>) s = (t3, s1)"
    for c r t3 s1
  proof -
    have "est \<or> real_usage (t1\<lparr>collected_content := c, collected_reasoning := r\<rparr>)"
      using inv1 by (simp add: real_usage_def)
    from maybe_emit_appended(1,2) [OF this that] this show ?thesis
      by (simp add: real_usage_def)
  qed
  show ?thesis
    unfolding process_chunk_def Let_def t1_def [symmetric]
    by (auto split: sum.splits prod.splits option.splits simp: real_usage_def dest!: step)
qed

lemma run_tools_appended:
  assumes "est \<or> real_usage t"
  shows "case run_tools w request_id pte buf t calls results s of
           Inl (e, s') \<Rightarrow> appended (turn_write request_id est) s s'
         | Inr (calls', results', t', s') \<Rightarrow>
             appended (turn_write request_id est) s s' \<and> last_usage t' = last_usage t
             \<and> tool_call_buffer t' = tool_call_buffer t
             \<and> collected_content t' = collected_content t
             \<and> collected_reasoning t' = collected_reasoning t"
  using assms
proof (induction buf arbitrary: t calls results s)
  case Nil
  then show ?case by simp
next
  case (Cons p rest)
  obtain key b where p: "p = (key, b)" by (cases p)
  show ?case
  proof (cases "truthy (tc_name b)")
    case False
    with Cons p show ?thesis by simp
  next
    case True
    define args where "args = parsed_args w b"
    define s1 where
      "s1 = snd (send_event w (tool_execution_event (tc_id b) (tc_name b) args) s)"
    obtain t1 s2 where m1: "maybe_emit_usage_estimate w request_id pte True t s1 = (t1, s2)"
      by (cases "maybe_emit_usage_estimate w request_id pte True t s1")
    define s3 where "s3 = s2\<lparr>tool_runs := tool_runs s2 @ [(tc_name b, args)]\<rparr>"
    have a1: "appended (turn_write request_id est) s s1"
      unfolding s1_def by (rule appended_send) simp_all
    from maybe_emit_appended [OF Cons.prems m1]
    have a2: "appended (turn_write request_id est) s1 s2" and t1: "last_usage t1 = last_usage t"
      "tool_call_buffer t1 = tool_call_buffer t" "collected_content t1 = collected_content t"
      "collected_reasoning t1 = collected_reasoning t"
      by simp_all
    have a3: "appended (turn_write request_id est) s s3"
      by (rule appended_same_out [OF appended_trans [OF a1 a2]]) (simp add: s3_def)
    have inv1: "est \<or> real_usage t1"
      using Cons.prems t1 by (simp add: real_usage_def)
    show ?thesis
    proof (cases "execute_tool w (length (tool_runs s2)) (tc_name b) args")
      case (Inl e)
      with True a3 show ?thesis
        by (simp add: p Let_def args_def [symmetric] s1_def [symmetric] m1 s3_def [symmetric])
    next
      case (Inr result)
      define s4 where
        "s4 = snd (send_event w (tool_result_event (tc_id b) (tc_name b) args result) s3)"
      obtain t2 s5 where m2: "maybe_emit_usage_estimate w request_id pte True t1 s4 = (t2, s5)"
        by (cases "maybe_emit_usage_estimate w request_id pte True t1 s4")
      have a4: "appended (turn_write request_id est) s s4"
        unfolding s4_def by (rule appended_send [OF a3]) simp
      from maybe_emit_appended [OF inv1 m2]
      have a5: "appended (turn_write request_id est) s4 s5" and t2: "last_usage t2 = last_usage t1"
        "tool_call_buffer t2 = tool_call_buffer t1" "collected_content t2 = collected_content t1"
        "collected_reasoning t2 = collected_reasoning t1"
        by simp_all
      have a6: "appended (turn_write request_id est) s s5"
        by (rule appended_trans [OF a4 a5])
      have inv2: "est \<or> real_usage t2"
        using inv1 t2 by (simp add: real_usage_def)
      have eq: "run_tools w request_id pte (p # rest) t calls results s =
                  run_tools w request_id pte rest t2 (calls @ [tool_call_message b])
                    (dict_set results key result) s5"
        using True Inr
        by (simp add: p Let_def args_def [symmetric] s1_def [symmetric] m1 s3_def [symmetric]
            s4_def [symmetric] m2)
      from Cons.IH [OF inv2, where calls = "calls @ [tool_call_message b]" and results = "dict_set results key result" and s = s5]
      show ?thesis
        unfolding eq using a6 t1 t2
        by (auto split: sum.splits intro: appended_trans)
    qed
  qed
qed

lemma at_done_appended:
  assumes "est \<or> real_usage t"
  shows "case at_done w request_id pte body max_iterations line t s of
           Raised e s' \<Rightarrow> appended (turn_write request_id est) s s'
         | Finished r \<Rightarrow> appended (turn_write request_id est) s (outcome_io r)
         | Forward t' s' \<Rightarrow> False"
proof (cases "tool_call_buffer t \<noteq> []")
  case True
  have est: "last_usage t = None \<Longrightarrow> est"
    using assms by (auto simp: real_usage_def)
  from run_tools_appended [OF assms, where w = w and request_id = request_id and pte = pte and buf = "tool_call_buffer t" and calls = "[]" and results = "[]" and s = s]
  show ?thesis
    using True est
    by (auto simp: at_done_def Let_def split: sum.splits
        intro!: appended_send turn_write_usage)
next
  case False
  have "turn_write request_id est (Event (usage_event a b c
          (truthy (dict_get (final_usage w body t) ''estimated'' JNull)) (Some request_id)))"
    for a b c
    using assms
    by (intro turn_write_usage) (auto simp: final_usage_def real_usage_def split: option.splits)
  with False show ?thesis
    by (auto simp: at_done_def Let_def intro!: appended_write appended_send)
qed

lemma on_line_appended:
  assumes "est \<or> real_usage t"
  shows "case on_line w request_id pte body max_iterations line t s of
           Raised e s' \<Rightarrow> appended (turn_write request_id est) s s'
         | Finished r \<Rightarrow> appended (turn_write request_id est) s (outcome_io r)
         | Forward t' s' \<Rightarrow>
             appended (turn_write request_id est) s s' \<and> (est \<or> real_usage t')"
proof (cases "startswith (strip line) ''data:''")
  case False
  with assms show ?thesis by (simp add: on_line_def)
next
  case data: True
  show ?thesis
  proof (cases "strip (drop 5 (strip line)) = ''[DONE]''")
    case True
    with data have "on_line w request_id pte body max_iterations line t s =
                      at_done w request_id pte body max_iterations line t s"
      by (simp add: on_line_def)
    with at_done_appended [OF assms, where w = w and request_id = request_id and pte = pte
        and body = body and max_iterations = max_iterations and line = line and s = s]
    show ?thesis
      by (simp split: line_result.splits)
  next
    case not_done: False
    show ?thesis
    proof (cases "loads w (strip (drop 5 (strip line)))")
      case None
      with data not_done assms show ?thesis by (simp add: on_line_def)
    next
      case (Some chunk)
      with data not_done
      have eq: "on_line w request_id pte body max_iterations line t s =
                  (case process_chunk w request_id pte chunk t s of
                     Inl (e, s') \<Rightarrow> Raised e s'
                   | Inr (t', s') \<Rightarrow> Forward t' s')"
        by (simp add: on_line_def)
      from process_chunk_appended [OF assms, where w = w and request_id = request_id
          and pte = pte and chunk = chunk and s = s]
      show ?thesis
        unfolding eq by (auto split: sum.splits)
    qed
  qed
qed

lemma read_loop_appended:
  assumes "est \<or> real_usage t"
  shows "appended (turn_write request_id est) s
           (outcome_io (read_loop w request_id pte body max_iterations lines t s))"
  using assms
proof (induction lines arbitrary: t s)
  case Nil
  then show ?case by simp
next
  case (Cons line rest)
  show ?case
  proof (cases "line = []")
    case True
    then show ?thesis by simp
  next
    case False
    note step = on_line_appended [OF Cons.prems, where w = w and request_id = request_id
      and pte = pte and body = body and max_iterations = max_iterations and line = line and s = s]
    show ?thesis
    proof (cases "on_line w request_id pte body max_iterations line t s")
      case (Raised e s')
      with step False show ?thesis
        by (auto intro!: appended_send)
    next
      case (Finished r)
      with step False show ?thesis by simp
    next
      case (Forward t' s')
      with step have a: "appended (turn_write request_id est) s s'"
        and inv: "est \<or> real_usage t'"
        by simp_all
      have b: "appended (turn_write request_id est) s (snd (write_out w (Line line) s'))"
        by (rule appended_write [OF a]) simp
      from Cons.IH [OF inv, where s = "snd (write_out w (Line line) s')"] b
      have "appended (turn_write request_id est) s
              (outcome_io (read_loop w request_id pte body max_iterations rest t'
                 (snd (write_out w (Line line) s'))))"
        by (rule appended_trans [rotated])
      with b Forward False show ?thesis
        by (auto simp: Let_def split: prod.splits)
    qed
  qed
qed

subsection \<open>No estimate after upstream usage\<close>

lemma turn_write_not_estimated:
  assumes "turn_write request_id False x"
  shows "\<not> estimated_usage x"
  using assms
  unfolding turn_write_def
  by (auto simp: estimated_usage_def is_event_of_type_def event_field_def is_line_def
      tool_execution_event_def tool_result_event_def continuation_event_def
      streaming_error_event_def usage_event_def split: wr.splits)

lemma process_usage_chunk:
  assumes "upstream_usage chunk = Some u"
  shows "case process_chunk w request_id pte chunk t s of
           Inl (e, s') \<Rightarrow> s' = s
         | Inr (t', s') \<Rightarrow> s' = s \<and> real_usage t'"
proof -
  have emit: "maybe_emit_usage_estimate w request_id pte False
                (t\<lparr>last_usage := Some u, collected_content := c, collected_reasoning := r\<rparr>) s
              = (t\<lparr>last_usage := Some u, collected_content := c, collected_reasoning := r\<rparr>, s)"
    for c r
    by (simp add: maybe_emit_with_usage)
  have real: "real_usage (t\<lparr>last_usage := Some u, collected_content := c,
                collected_reasoning := r, tool_call_buffer := b\<rparr>)"
    for c r b
    using real_usage_upstream [OF assms, of t] by (simp add: real_usage_def)
  have real': "real_usage (t\<lparr>last_usage := Some u, collected_content := c,
                collected_reasoning := r\<rparr>)"
    for c r
    using real_usage_upstream [OF assms, of t] by (simp add: real_usage_def)
  show ?thesis
    unfolding process_chunk_def Let_def
    by (auto simp: assms emit real real' split: sum.splits)
qed

text \<open>
  Claim C5.  From any point of a turn, once a line whose chunk carries an upstream usage
  object is read, nothing written in the rest of the turn (the rest of that chunk's
  processing, later chunks, tool dispatch, the pre-continuation estimate, the final usage
  event at \<^verbatim>\<open>[DONE]\<close>, an error event) is a usage event with a true
  \<^verbatim>\<open>estimated\<close> field.
\<close>

theorem no_estimate_after_upstream_usage:
  assumes "usage_line w line"
  shows "appended (\<lambda>x. \<not> estimated_usage x) s
           (outcome_io (read_loop w request_id pte body max_iterations (line # rest) t s))"
proof -
  from assms obtain chunk u where line: "line \<noteq> []"
    and data: "startswith (strip line) ''data:''"
    and not_done: "strip (drop 5 (strip line)) \<noteq> ''[DONE]''"
    and chunk: "loads w (strip (drop 5 (strip line))) = Some chunk"
    and usage: "upstream_usage chunk = Some u"
    by (auto simp: usage_line_def split: option.splits)
  have eq: "on_line w request_id pte body max_iterations line t s =
              (case process_chunk w request_id pte chunk t s of
                 Inl (e, s') \<Rightarrow> Raised e s'
               | Inr (t', s') \<Rightarrow> Forward t' s')"
    using data not_done chunk by (simp add: on_line_def)
  note step = process_usage_chunk [OF usage, where w = w and request_id = request_id
      and pte = pte and t = t and s = s]
  have "appended (turn_write request_id False) s
          (outcome_io (read_loop w request_id pte body max_iterations (line # rest) t s))"
  proof (cases "process_chunk w request_id pte chunk t s")
    case (Inl p)
    obtain e s' where p: "p = (e, s')" by (cases p)
    with step Inl have "s' = s" by simp
    with Inl p line show ?thesis
      by (simp add: eq appended_send)
  next
    case (Inr p)
    obtain t' s' where p: "p = (t', s')" by (cases p)
    with step Inr have s': "s' = s" and real: "real_usage t'" by simp_all
    have real': "False \<or> real_usage t'" using real by simp
    have b: "appended (turn_write request_id False) s (snd (write_out w (Line line) s))"
      by (rule appended_write) simp_all
    from read_loop_appended [OF real', where s = "snd (write_out w (Line line) s)"
        and w = w and request_id = request_id and pte = pte and body = body
        and max_iterations = max_iterations and lines = rest] b
    have "appended (turn_write request_id False) s
            (outcome_io (read_loop w request_id pte body max_iterations rest t'
               (snd (write_out w (Line line) s))))"
      by (rule appended_trans [rotated])
    with b Inr p s' line show ?thesis
      by (auto simp: eq Let_def split: prod.splits)
  qed
  then show ?thesis
    by (rule appended_mono) (rule turn_write_not_estimated)
qed

theorem no_estimate_after_upstream_usage_witness:
  "usage_line demo (data_line (fst (payloads ! 4)))
   \<and> appended (\<lambda>x. \<not> estimated_usage x) io0
         (outcome_io (read_loop demo ''3e8'' 1 body0 10
            [data_line (fst (payloads ! 4)), data_line ''[DONE]''] turn0 io0))
   \<and> map fst (out (outcome_io (read_loop demo ''3e8'' 1 body0 10
            [data_line (fst (payloads ! 4)), data_line ''[DONE]''] turn0 io0)))
       = [Line (data_line (fst (payloads ! 4))),
          Event (usage_event (JNum 7) (JNum 2) (JNum 9) False (Some ''3e8'')),
          Line (data_line ''[DONE]'')]"
proof -
  have u: "usage_line demo (data_line (fst (payloads ! 4)))"
    by (simp add: usage_line_def run_defs)
  have log: "map fst (out (outcome_io (read_loop demo ''3e8'' 1 body0 10
            [data_line (fst (payloads ! 4)), data_line ''[DONE]''] turn0 io0)))
       = [Line (data_line (fst (payloads ! 4))),
          Event (usage_event (JNum 7) (JNum 2) (JNum 9) False (Some ''3e8'')),
          Line (data_line ''[DONE]'')]"
    by (simp add: run_defs)
  from no_estimate_after_upstream_usage [OF u, where s = io0 and request_id = "''3e8''"
      and pte = 1 and body = body0 and max_iterations = 10
      and rest = "[data_line ''[DONE]'']" and t = turn0] u log
  show ?thesis by simp
qed

subsection \<open>The request id of an invocation\<close>

lemma turn_write_request_id:
  assumes "turn_write request_id est x"
  shows "request_id_of x = None \<or> request_id_of x = Some (JStr request_id)"
  using assms
  unfolding turn_write_def
  by (auto simp: request_id_of_def event_field_def is_line_def
      tool_execution_event_def tool_result_event_def continuation_event_def
      streaming_error_event_def usage_event_def split: wr.splits)

text \<open>
  Claim C4, amended.  Every invocation that passes the budget check takes its own request
  id from the clock reading at its start, and every write of that invocation that has a
  \<^verbatim>\<open>request_id\<close> field carries this value; the budget-exhausted invocation writes
  no \<^verbatim>\<open>request_id\<close> at all.  (A continuation is a new invocation with a new
  reading.)
\<close>

theorem request_id_per_invocation:
  "appended (\<lambda>x. request_id_of x = None
                 \<or> request_id_of x = Some (JStr (hexstr (time_ms w (clock_reads s)))))
     s (outcome_io (streaming_turn w body is_first max_iterations s))"
proof (cases "effective_max_iterations w max_iterations \<le> 0")
  case True
  then show ?thesis
    by (simp add: budget_exhausted_turn appended_def request_id_of_def event_field_def
        usage_event_def)
next
  case False
  define rid where "rid = hexstr (time_ms w (clock_reads s))"
  define s1 where "s1 = s\<lparr>clock_reads := Suc (clock_reads s)\<rparr>"
  define s2 where
    "s2 = (if is_first \<and> send_headers w \<and> \<not> headers_sent s1
           then s1\<lparr>headers_sent := True, header_sends := Suc (header_sends s1)\<rparr> else s1)"
  define s3 where "s3 = s2\<lparr>requests := requests s2 @ [inject_tools body]\<rparr>"
  let ?P = "\<lambda>x. request_id_of x = None \<or> request_id_of x = Some (JStr rid)"
  have out3: "out s3 = out s"
    by (simp add: s3_def s2_def s1_def)
  have a3: "appended ?P s s3"
    by (rule appended_same_out [OF appended_refl]) (rule out3)
  show ?thesis
  proof (cases "request_chat_completions w (length (requests s2)) (inject_tools body)")
    case (Inl message)
    have "appended ?P s3 (snd (write_out w (Bytes done_literal)
            (snd (send_error w message
               (snd (send_event w
                  (usage_event (JNum (prompt_tokens_of w (inject_tools body))) (JNum 0)
                     (JNum (prompt_tokens_of w (inject_tools body))) True (Some rid)) s3))))))"
      by (intro appended_write appended_send appended_refl)
         (simp_all add: send_error_def request_id_of_def event_field_def usage_event_def
           appended_send)
    with a3 have "appended ?P s (snd (write_out w (Bytes done_literal)
            (snd (send_error w message
               (snd (send_event w
                  (usage_event (JNum (prompt_tokens_of w (inject_tools body))) (JNum 0)
                     (JNum (prompt_tokens_of w (inject_tools body))) True (Some rid)) s3))))))"
      by (rule appended_trans)
    with False Inl show ?thesis
      by (simp add: streaming_turn_def Let_def rid_def [symmetric] s1_def [symmetric]
          s2_def [symmetric] s3_def [symmetric])
  next
    case (Inr lines)
    have "True \<or> real_usage turn0" by simp
    from read_loop_appended [OF this, where w = w and request_id = rid
        and pte = "prompt_tokens_of w (inject_tools body)" and body = "inject_tools body"
        and max_iterations = "effective_max_iterations w max_iterations" and lines = lines
        and s = s3]
    have "appended ?P s3 (outcome_io (read_loop w rid (prompt_tokens_of w (inject_tools body))
            (inject_tools body) (effective_max_iterations w max_iterations) lines turn0 s3))"
      by (rule appended_mono) (rule turn_write_request_id)
    with a3 have "appended ?P s (outcome_io (read_loop w rid
            (prompt_tokens_of w (inject_tools body)) (inject_tools body)
            (effective_max_iterations w max_iterations) lines turn0 s3))"
      by (rule appended_trans)
    with False Inr show ?thesis
      by (simp add: streaming_turn_def Let_def rid_def [symmetric] s1_def [symmetric]
          s2_def [symmetric] s3_def [symmetric])
  qed
qed

theorem request_id_per_invocation_witness:
  "appended (\<lambda>x. request_id_of x = None \<or> request_id_of x = Some (JStr ''3e8''))
     io0 (outcome_io (streaming_turn tool_then_answer body0 True 10 io0))
   \<and> List.map_filter request_id_of
        (map fst (out (outcome_io (streaming_turn tool_then_answer body0 True 10 io0))))
       = [JStr ''3e8'', JStr ''3e8'', JStr ''3e8'', JStr ''3e8'', JStr ''3e8'']"
proof -
  have rid: "hexstr (time_ms tool_then_answer (clock_reads io0)) = ''3e8''"
    by (simp add: tool_then_answer_def run_defs)
  have ids: "List.map_filter request_id_of
        (map fst (out (outcome_io (streaming_turn tool_then_answer body0 True 10 io0))))
       = [JStr ''3e8'', JStr ''3e8'', JStr ''3e8'', JStr ''3e8'', JStr ''3e8'']"
    by (simp add: tool_then_answer_def run_defs log_defs List.map_filter_simps)
  from request_id_per_invocation [of tool_then_answer io0 body0 True 10] rid ids
  show ?thesis by simp
qed

subsection \<open>A buffer without a named call\<close>

lemma run_tools_unnamed:
  "named buf = [] \<Longrightarrow>
     run_tools w request_id pte buf t calls results s = Inr (calls, results, t, s)"
  by (induction buf) (auto simp: named_def split: if_splits)

lemma tool_messages_unnamed: "named buf = [] \<Longrightarrow> tool_messages w buf results = []"
  by (induction buf) (auto simp: named_def split: if_splits)

lemma handle_streaming_continues:
  "streaming_turn w body is_first max_iterations s = Call body' is_first' max_iterations' s'
     \<Longrightarrow> handle_streaming (Suc depth) w body is_first max_iterations s
           = handle_streaming depth w body' is_first' max_iterations' s'"
  by simp

text \<open>
  Claim C10.  At \<^verbatim>\<open>[DONE]\<close> with a non-empty buffer none of whose entries has a
  name (and a request body whose messages are a list), the invocation ends in the
  recursive call with the budget decremented: no tool runs, the only writes are the
  continuation event and (without upstream usage) the estimate for the next prompt, and
  the conversation grows by exactly one assistant message whose \<^verbatim>\<open>tool_calls\<close> is
  the empty list.
\<close>

theorem unnamed_buffer_continues:
  assumes "done_line line"
    and "tool_call_buffer t \<noteq> []"
    and "named (tool_call_buffer t) = []"
    and "dict_get body ''messages'' (JArr []) = JArr messages"
  shows "read_loop w request_id pte body max_iterations (line # rest) t s =
           Call (dict_set body ''messages'' (JArr (messages @ [assistant_message t []])))
             False (max_iterations - 1)
             (if last_usage t = None
              then snd (send_event w
                     (usage_event
                        (JNum (prompt_tokens_of w (dict_set body ''messages''
                                 (JArr (messages @ [assistant_message t []])))))
                        (JNum 0)
                        (JNum (prompt_tokens_of w (dict_set body ''messages''
                                 (JArr (messages @ [assistant_message t []])))))
                        True (Some request_id))
                     (snd (send_event w (continuation_event request_id) s)))
              else snd (send_event w (continuation_event request_id) s))
         \<and> py_get (assistant_message t []) ''tool_calls'' JNull = Inr (JArr [])"
proof -
  from assms(1) have line: "line \<noteq> []" and data: "startswith (strip line) ''data:''"
    and payload: "strip (drop 5 (strip line)) = ''[DONE]''"
    by (simp_all add: done_line_def)
  have on_line: "on_line w request_id pte body max_iterations line t s =
                   at_done w request_id pte body max_iterations line t s"
    using data payload by (simp add: on_line_def)
  have "at_done w request_id pte body max_iterations line t s =
          Finished (Call (dict_set body ''messages'' (JArr (messages @ [assistant_message t []])))
             False (max_iterations - 1)
             (if last_usage t = None
              then snd (send_event w
                     (usage_event
                        (JNum (prompt_tokens_of w (dict_set body ''messages''
                                 (JArr (messages @ [assistant_message t []])))))
                        (JNum 0)
                        (JNum (prompt_tokens_of w (dict_set body ''messages''
                                 (JArr (messages @ [assistant_message t []])))))
                        True (Some request_id))
                     (snd (send_event w (continuation_event request_id) s)))
              else snd (send_event w (continuation_event request_id) s)))"
    using assms(2,3,4)
    by (simp add: at_done_def run_tools_unnamed follow_up_messages_def tool_messages_unnamed
        Let_def)
  moreover have "py_get (assistant_message t []) ''tool_calls'' JNull = Inr (JArr [])"
    by (simp add: assistant_message_def py_get_def)
  ultimately show ?thesis
    using line on_line by simp
qed

theorem unnamed_buffer_continues_witness:
  "done_line (data_line ''[DONE]'')
   \<and> tool_call_buffer unnamed_turn \<noteq> []
   \<and> named (tool_call_buffer unnamed_turn) = []
   \<and> read_loop demo ''3e8'' 1 body0 10 [data_line ''[DONE]''] unnamed_turn io0 =
       Call [(''messages'', JArr [JObj [(''role'', JStr ''user''), (''content'', JStr ''hi'')],
                                  JObj [(''role'', JStr ''assistant''), (''content'', JStr []),
                                        (''tool_calls'', JArr [])]]),
             (''stream'', JBool True)]
         False 9
         (io0\<lparr>out := [(Event (continuation_event ''3e8''), True),
                        (Event (usage_event (JNum 1) (JNum 0) (JNum 1) True (Some ''3e8'')),
                         True)]\<rparr>)"
proof -
  have d: "done_line (data_line ''[DONE]'')"
    by (simp add: done_line_def run_defs)
  have b: "tool_call_buffer unnamed_turn \<noteq> []"
    by (simp add: unnamed_turn_def)
  have n: "named (tool_call_buffer unnamed_turn) = []"
    by (simp add: unnamed_turn_def named_def empty_fragment_def)
  have m: "dict_get body0 ''messages'' (JArr [])
             = JArr [JObj [(''role'', JStr ''user''), (''content'', JStr ''hi'')]]"
    by (simp add: body0_def)
  from unnamed_buffer_continues [OF d b n m, where w = demo and request_id = "''3e8''"
      and pte = 1 and max_iterations = 10 and rest = "[]" and s = io0] d b n
  show ?thesis
    by (simp add: unnamed_turn_def turn0_def assistant_message_def body0_def
        prompt_tokens_of_def estimate_tokens_def send_event_def write_out_def io0_def
        Let_def demo_def)
qed

text \<open>
  Such a state is reached: a delta that carries only an index leaves an unnamed entry, and
  the sample run continues with a budget of 9 and an assistant message without calls.
\<close>

lemma unnamed_buffer_reached:
  "streaming_turn unnamed_call_world body0 True 10 io0 =
     Call [(''messages'', JArr [JObj [(''role'', JStr ''user''), (''content'', JStr ''hi'')],
                                JObj [(''role'', JStr ''assistant''), (''content'', JStr []),
                                      (''tool_calls'', JArr [])]]),
           (''stream'', JBool True), (''tools'', get_tool_definitions),
           (''tool_choice'', JStr ''auto'')]
       False 9
       (io0\<lparr>out := [(Event (usage_event (JNum 1) (JNum 0) (JNum 1) True (Some ''3e8'')), True),
                      (Line (data_line (fst (payloads ! 3))), True),
                      (Event (continuation_event ''3e8''), True),
                      (Event (usage_event (JNum 1) (JNum 0) (JNum 1) True (Some ''3e8'')), True)],
            clock_reads := 2,
            requests := [[(''messages'', JArr [JObj [(''role'', JStr ''user''),
                                                     (''content'', JStr ''hi'')]]),
                          (''stream'', JBool True), (''tools'', get_tool_definitions),
                          (''tool_choice'', JStr ''auto'')]],
            headers_sent := True, header_sends := 1\<rparr>)"
  by (simp add: unnamed_call_world_def run_defs)

subsection \<open>Tools run in the buffer's order\<close>

lemma is_tool_execution_simps [simp]:
  "is_event_of_type ''tool_execution'' (Event (tool_execution_event i nm args))"
  "\<not> is_event_of_type ''tool_execution'' (Event (tool_result_event i nm args r))"
  "\<not> is_event_of_type ''tool_execution'' (Event (usage_event a b c e rid))"
  by (simp_all add: is_event_of_type_def event_field_def tool_execution_event_def
      tool_result_event_def usage_event_def)









subsection \<open>Failed writes of synthetic events\<close>

lemma patient_client_fields [simp]:
  "loads (patient_client w) = loads w"
  "dumps (patient_client w) = dumps w"
  "dumps_unicode (patient_client w) = dumps_unicode w"
  "str_of (patient_client w) = str_of w"
  "str_exn (patient_client w) = str_exn w"
  "environ (patient_client w) = environ w"
  "int_of_str (patient_client w) = int_of_str w"
  "time_ms (patient_client w) = time_ms w"
  "execute_tool (patient_client w) = execute_tool w"
  "request_chat_completions (patient_client w) = request_chat_completions w"
  "send_headers (patient_client w) = send_headers w"
  "wfile_ok (patient_client w) n = True"
  by (simp_all add: patient_client_def)

lemma all_delivered_fields [simp]:
  "clock_reads (all_delivered s) = clock_reads s"
  "requests (all_delivered s) = requests s"
  "tool_runs (all_delivered s) = tool_runs s"
  "headers_sent (all_delivered s) = headers_sent s"
  "header_sends (all_delivered s) = header_sends s"
  "length (out (all_delivered s)) = length (out s)"
  by (simp_all add: all_delivered_def)

lemma all_delivered_updates [simp]:
  "(all_delivered s)\<lparr>clock_reads := n\<rparr> = all_delivered (s\<lparr>clock_reads := n\<rparr>)"
  "(all_delivered s)\<lparr>requests := rs\<rparr> = all_delivered (s\<lparr>requests := rs\<rparr>)"
  "(all_delivered s)\<lparr>tool_runs := ts\<rparr> = all_delivered (s\<lparr>tool_runs := ts\<rparr>)"
  "(all_delivered s)\<lparr>headers_sent := h\<rparr> = all_delivered (s\<lparr>headers_sent := h\<rparr>)"
  "(all_delivered s)\<lparr>header_sends := k\<rparr> = all_delivered (s\<lparr>header_sends := k\<rparr>)"
  by (simp_all add: all_delivered_def)

lemma write_out_delivered [simp]:
  "snd (write_out (patient_client w) x (all_delivered s)) = all_delivered (snd (write_out w x s))"
  "fst (write_out (patient_client w) x (all_delivered s)) = True"
  by (simp_all add: write_out_def Let_def all_delivered_def)

lemma send_event_delivered [simp]:
  "snd (send_event (patient_client w) e (all_delivered s))
     = all_delivered (snd (send_event w e s))"
  by (simp add: send_event_def)

lemma send_error_delivered [simp]:
  "snd (send_error (patient_client w) m (all_delivered s))
     = all_delivered (snd (send_error w m s))"
  by (simp add: send_error_def)

lemma prompt_tokens_of_patient [simp]:
  "prompt_tokens_of (patient_client w) body = prompt_tokens_of w body"
  by (simp add: prompt_tokens_of_def)

lemma map_prod_id_snd: "map_prod id f p = (fst p, f (snd p))"
  by (cases p) simp

lemma maybe_emit_delivered:
  "maybe_emit_usage_estimate (patient_client w) request_id pte force t (all_delivered s)
     = map_prod id all_delivered (maybe_emit_usage_estimate w request_id pte force t s)"
  by (simp add: maybe_emit_usage_estimate_def Let_def)

lemma buffer_key_patient [simp]: "buffer_key (patient_client w) tc = buffer_key w tc"
  by (simp add: buffer_key_def)

lemma merge_tool_call_patient [simp]:
  "merge_tool_call (patient_client w) buf tc = merge_tool_call w buf tc"
  by (simp add: merge_tool_call_def)

lemma merge_tool_calls_patient_app:
  "merge_tool_calls (patient_client w) buf tcs = merge_tool_calls w buf tcs"
  by (induction tcs arbitrary: buf) simp_all

lemma merge_tool_calls_patient [simp]:
  "merge_tool_calls (patient_client w) buf = merge_tool_calls w buf"
  by (rule ext) (rule merge_tool_calls_patient_app)

lemma process_chunk_delivered:
  "process_chunk (patient_client w) request_id pte chunk t (all_delivered s)
     = map_sum (map_prod id all_delivered) (map_prod id all_delivered)
         (process_chunk w request_id pte chunk t s)"
  by (auto simp: process_chunk_def Let_def maybe_emit_delivered case_prod_beta
      map_prod_id_snd split: sum.splits option.splits)

lemma parsed_args_patient [simp]: "parsed_args (patient_client w) b = parsed_args w b"
  by (simp add: parsed_args_def)

lemma run_tools_delivered:
  "run_tools (patient_client w) request_id pte buf t calls results (all_delivered s)
     = map_sum (map_prod id all_delivered)
         (\<lambda>r. (fst r, fst (snd r), fst (snd (snd r)), all_delivered (snd (snd (snd r)))))
         (run_tools w request_id pte buf t calls results s)"
proof (induction buf arbitrary: t calls results s)
  case Nil
  show ?case by simp
next
  case (Cons p rest)
  obtain key b where p: "p = (key, b)" by (cases p)
  show ?case
    unfolding p
    by (auto simp: Let_def maybe_emit_delivered case_prod_beta Cons.IH map_prod_id_snd
        split: sum.splits)
qed

lemma tool_messages_patient [simp]:
  "tool_messages (patient_client w) buf results = tool_messages w buf results"
  by (induction buf) (auto simp: tool_message_def tool_output_def)

lemma follow_up_messages_patient [simp]:
  "follow_up_messages (patient_client w) body t calls results
     = follow_up_messages w body t calls results"
  by (simp add: follow_up_messages_def split: json.splits)

lemma final_usage_patient [simp]: "final_usage (patient_client w) body t = final_usage w body t"
  by (simp add: final_usage_def split: option.splits)

lemma at_done_delivered:
  "at_done (patient_client w) request_id pte body max_iterations line t (all_delivered s)
     = line_delivered (at_done w request_id pte body max_iterations line t s)"
  by (auto simp: at_done_def Let_def run_tools_delivered case_prod_beta map_prod_id_snd
      split: sum.splits)

lemma on_line_delivered:
  "on_line (patient_client w) request_id pte body max_iterations line t (all_delivered s)
     = line_delivered (on_line w request_id pte body max_iterations line t s)"
  by (auto simp: on_line_def Let_def at_done_delivered process_chunk_delivered
      map_prod_id_snd split: option.splits sum.splits)

lemma write_out_parts:
  "fst (write_out w x s) = wfile_ok w (length (out s))"
  "out (snd (write_out w x s)) = out s @ [(x, wfile_ok w (length (out s)))]"
  by (simp_all add: write_out_def Let_def)

lemma read_loop_delivered:
  assumes "lines_delivered (outcome_io (read_loop w request_id pte body max_iterations lines t s))"
  shows "read_loop (patient_client w) request_id pte body max_iterations lines t (all_delivered s)
           = outcome_delivered (read_loop w request_id pte body max_iterations lines t s)"
  using assms
proof (induction lines arbitrary: t s)
  case Nil
  show ?case by simp
next
  case (Cons line rest)
  show ?case
  proof (cases "line = []")
    case True
    then show ?thesis by simp
  next
    case False
    show ?thesis
    proof (cases "on_line w request_id pte body max_iterations line t s")
      case (Raised e s')
      with False show ?thesis
        by (simp add: on_line_delivered)
    next
      case (Finished r)
      with False show ?thesis
        by (simp add: on_line_delivered)
    next
      case (Forward t' s')
      show ?thesis
      proof (cases "wfile_ok w (length (out s'))")
        case True
        with False Forward
        have eq: "read_loop w request_id pte body max_iterations (line # rest) t s =
                    read_loop w request_id pte body max_iterations rest t'
                      (snd (write_out w (Line line) s'))"
          by (simp add: case_prod_beta write_out_parts)
        from Cons.prems have "lines_delivered (outcome_io
            (read_loop w request_id pte body max_iterations rest t'
               (snd (write_out w (Line line) s'))))"
          by (simp only: eq)
        from Cons.IH [OF this] False Forward True show ?thesis
          by (simp add: on_line_delivered case_prod_beta write_out_parts)
      next
        case failed: False
        with False Forward
        have "read_loop w request_id pte body max_iterations (line # rest) t s =
                Return (snd (write_out w (Line line) s'))"
          by (simp add: case_prod_beta write_out_parts)
        with Cons.prems failed have "False"
          by (simp add: lines_delivered_def write_out_parts is_line_def)
        then show ?thesis ..
      qed
    qed
  qed
qed

lemma effective_max_iterations_patient [simp]:
  "effective_max_iterations (patient_client w) max_iterations
     = effective_max_iterations w max_iterations"
  by (simp add: effective_max_iterations_def)

text \<open>
  The loop does stop where the forward of an upstream line fails (line 383).
\<close>

lemma failed_forward_stops_loop:
  assumes "line \<noteq> []"
    and "on_line w request_id pte body max_iterations line t s = Forward t' s'"
    and "\<not> wfile_ok w (length (out s'))"
  shows "read_loop w request_id pte body max_iterations (line # rest) t s =
           Return (s'\<lparr>out := out s' @ [(Line line, False)]\<rparr>)"
  using assms by (simp add: write_out_def Let_def)

text \<open>
  Claim C9.  If every forwarded upstream line of an invocation went through, the
  invocation did exactly what it does with a client that takes every write: the same
  writes attempted in the same order, the same tool invocations, upstream requests and
  clock readings, the same return or recursive call with the same body and budget.  So a
  failed write of a synthetic event (or of a \<^verbatim>\<open>[DONE]\<close> literal) changes nothing
  but its own mark in the log.
\<close>

theorem failed_event_writes_change_nothing:
  assumes "lines_delivered (outcome_io (streaming_turn w body is_first max_iterations s))"
  shows "streaming_turn (patient_client w) body is_first max_iterations (all_delivered s)
           = outcome_delivered (streaming_turn w body is_first max_iterations s)"
proof (cases "effective_max_iterations w max_iterations \<le> 0")
  case True
  then show ?thesis
    by (simp add: streaming_turn_def Let_def)
next
  case budget: False
  show ?thesis
  proof (cases "request_chat_completions w (length (requests s)) (inject_tools body)")
    case (Inl message)
    with budget show ?thesis
      by (simp add: streaming_turn_def Let_def)
  next
    case (Inr lines)
    let ?loop = "\<lambda>v s3. read_loop v (hexstr (time_ms w (clock_reads s)))
                  (prompt_tokens_of w (inject_tools body)) (inject_tools body)
                  (effective_max_iterations w max_iterations) lines turn0 s3"
    show ?thesis
    proof (cases "is_first \<and> send_headers w \<and> \<not> headers_sent s")
      case True
      define s3 where
        "s3 = s\<lparr>clock_reads := Suc (clock_reads s), headers_sent := True,
                 header_sends := Suc (header_sends s),
                 requests := requests s @ [inject_tools body]\<rparr>"
      have eq: "streaming_turn w body is_first max_iterations s = ?loop w s3"
        using budget Inr True by (simp add: streaming_turn_def Let_def s3_def)
      have eq': "streaming_turn (patient_client w) body is_first max_iterations (all_delivered s)
                   = ?loop (patient_client w) (all_delivered s3)"
        using budget Inr True by (simp add: streaming_turn_def Let_def s3_def)
      from assms have "lines_delivered (outcome_io (?loop w s3))"
        by (simp only: eq)
      from read_loop_delivered [OF this] show ?thesis
        by (simp only: eq eq')
    next
      case False
      define s3 where
        "s3 = s\<lparr>clock_reads := Suc (clock_reads s),
                 requests := requests s @ [inject_tools body]\<rparr>"
      have eq: "streaming_turn w body is_first max_iterations s = ?loop w s3"
        using budget Inr False by (auto simp: streaming_turn_def Let_def s3_def)
      have eq': "streaming_turn (patient_client w) body is_first max_iterations (all_delivered s)
                   = ?loop (patient_client w) (all_delivered s3)"
        using budget Inr False by (auto simp: streaming_turn_def Let_def s3_def)
      from assms have "lines_delivered (outcome_io (?loop w s3))"
        by (simp only: eq)
      from read_loop_delivered [OF this] show ?thesis
        by (simp only: eq eq')
    qed
  qed
qed

theorem failed_event_writes_change_nothing_witness:
  "lines_delivered (outcome_io (streaming_turn deaf_client_world body0 True 10 io0))
   \<and> map snd (out (outcome_io (streaming_turn deaf_client_world body0 True 10 io0)))
       = [False, True, False, False, False, False, False, False]
   \<and> tool_runs (outcome_io (streaming_turn deaf_client_world body0 True 10 io0))
       = [(JStr ''f'', JObj [])]
   \<and> streaming_turn (patient_client deaf_client_world) body0 True 10 (all_delivered io0)
       = outcome_delivered (streaming_turn deaf_client_world body0 True 10 io0)"
proof -
  have flags: "map snd (out (outcome_io (streaming_turn deaf_client_world body0 True 10 io0)))
       = [False, True, False, False, False, False, False, False]"
    by (simp add: deaf_client_world_def tool_then_answer_def run_defs)
  have runs: "tool_runs (outcome_io (streaming_turn deaf_client_world body0 True 10 io0))
       = [(JStr ''f'', JObj [])]"
    by (simp add: deaf_client_world_def tool_then_answer_def run_defs)
  have deliv: "lines_delivered (outcome_io (streaming_turn deaf_client_world body0 True 10 io0))"
    by (simp add: lines_delivered_def deaf_client_world_def tool_then_answer_def run_defs
        is_line_def)
  from failed_event_writes_change_nothing [OF deliv] deliv flags runs
  show ?thesis by simp
qed

subsection \<open>The non-streaming handler\<close>







subsection \<open>The budget without the override\<close>

lemma requests_write_out [simp]: "requests (snd (write_out w x s)) = requests s"
  by (simp add: write_out_def Let_def)

lemma requests_send_event [simp]: "requests (snd (send_event w e s)) = requests s"
  by (simp add: send_event_def)

lemma requests_send_error [simp]: "requests (snd (send_error w m s)) = requests s"
  by (simp add: send_error_def)

lemma maybe_emit_requests [simp]:
  "requests (snd (maybe_emit_usage_estimate w request_id pte force t s)) = requests s"
  by (simp add: maybe_emit_usage_estimate_def Let_def)

lemma maybe_emit_requestsD:
  "maybe_emit_usage_estimate w request_id pte force t s = (t', s') \<Longrightarrow> requests s' = requests s"
  using maybe_emit_requests [of w request_id pte force t s] by simp

lemma process_chunk_requests:
  "case process_chunk w request_id pte chunk t s of
     Inl (e, s') \<Rightarrow> requests s' = requests s
   | Inr (t', s') \<Rightarrow> requests s' = requests s"
  by (auto simp: process_chunk_def Let_def split: sum.splits option.splits prod.splits
      dest: maybe_emit_requestsD)

lemma run_tools_requests:
  "case run_tools w request_id pte buf t calls results s of
     Inl (e, s') \<Rightarrow> requests s' = requests s
   | Inr (calls', results', t', s') \<Rightarrow> requests s' = requests s"
proof (induction buf arbitrary: t calls results s)
  case Nil
  show ?case by simp
next
  case (Cons p rest)
  obtain key b where p: "p = (key, b)" by (cases p)
  show ?case
  proof (cases "truthy (tc_name b)")
    case False
    with Cons [where t = t and calls = calls and results = results and s = s] show ?thesis
      by (simp add: p)
  next
    case True
    define s1 where
      "s1 = snd (send_event w (tool_execution_event (tc_id b) (tc_name b) (parsed_args w b)) s)"
    define m1 where "m1 = maybe_emit_usage_estimate w request_id pte True t s1"
    define s3 where
      "s3 = (snd m1)\<lparr>tool_runs := tool_runs (snd m1) @ [(tc_name b, parsed_args w b)]\<rparr>"
    have r3: "requests s3 = requests s"
      by (simp add: s3_def m1_def s1_def)
    show ?thesis
    proof (cases "execute_tool w (length (tool_runs (snd m1))) (tc_name b) (parsed_args w b)")
      case (Inl e)
      with True r3 show ?thesis
        by (simp add: p Let_def case_prod_beta s1_def [symmetric] m1_def [symmetric]
            s3_def [symmetric])
    next
      case (Inr result)
      define s4 where
        "s4 = snd (send_event w
                 (tool_result_event (tc_id b) (tc_name b) (parsed_args w b) result) s3)"
      define m2 where "m2 = maybe_emit_usage_estimate w request_id pte True (fst m1) s4"
      have r5: "requests (snd m2) = requests s"
        by (simp add: m2_def s4_def r3)
      have eq: "run_tools w request_id pte (p # rest) t calls results s =
                  run_tools w request_id pte rest (fst m2) (calls @ [tool_call_message b])
                    (dict_set results key result) (snd m2)"
        using True Inr
        by (simp add: p Let_def case_prod_beta s1_def [symmetric] m1_def [symmetric]
            s3_def [symmetric] s4_def [symmetric] m2_def [symmetric])
      from Cons [where t = "fst m2" and calls = "calls @ [tool_call_message b]"
          and results = "dict_set results key result" and s = "snd m2"] r5
      show ?thesis
        unfolding eq by (auto split: sum.splits)
    qed
  qed
qed

lemma at_done_requests:
  "case at_done w request_id pte body max_iterations line t s of
     Raised e s' \<Rightarrow> requests s' = requests s
   | Finished (Return s') \<Rightarrow> requests s' = requests s
   | Finished (Call b f m s') \<Rightarrow>
       m = max_iterations - 1 \<and> f = False \<and> requests s' = requests s
   | Forward t' s' \<Rightarrow> False"
  using run_tools_requests [where w = w and request_id = request_id and pte = pte
      and buf = "tool_call_buffer t" and t = t and calls = "[]" and results = "[]" and s = s]
  by (auto simp: at_done_def Let_def split: sum.splits)

lemma on_line_requests:
  "case on_line w request_id pte body max_iterations line t s of
     Raised e s' \<Rightarrow> requests s' = requests s
   | Finished (Return s') \<Rightarrow> requests s' = requests s
   | Finished (Call b f m s') \<Rightarrow>
       m = max_iterations - 1 \<and> f = False \<and> requests s' = requests s
   | Forward t' s' \<Rightarrow> requests s' = requests s"
proof (cases "startswith (strip line) ''data:''")
  case False
  then show ?thesis by (simp add: on_line_def)
next
  case data: True
  show ?thesis
  proof (cases "strip (drop 5 (strip line)) = ''[DONE]''")
    case True
    with data have "on_line w request_id pte body max_iterations line t s =
                      at_done w request_id pte body max_iterations line t s"
      by (simp add: on_line_def)
    with at_done_requests [where w = w and request_id = request_id and pte = pte
        and body = body and max_iterations = max_iterations and line = line and t = t and s = s]
    show ?thesis
      by (simp split: line_result.splits outcome.splits)
  next
    case not_done: False
    show ?thesis
    proof (cases "loads w (strip (drop 5 (strip line)))")
      case None
      with data not_done show ?thesis by (simp add: on_line_def)
    next
      case (Some chunk)
      with data not_done process_chunk_requests [where w = w and request_id = request_id
          and pte = pte and chunk = chunk and t = t and s = s]
      show ?thesis
        by (auto simp: on_line_def split: sum.splits)
    qed
  qed
qed

lemma read_loop_requests:
  "case read_loop w request_id pte body max_iterations lines t s of
     Return s' \<Rightarrow> requests s' = requests s
   | Call b f m s' \<Rightarrow> m = max_iterations - 1 \<and> f = False \<and> requests s' = requests s"
proof (induction lines arbitrary: t s)
  case Nil
  show ?case by simp
next
  case (Cons line rest)
  show ?case
  proof (cases "line = []")
    case True
    then show ?thesis by simp
  next
    case False
    note step = on_line_requests [where w = w and request_id = request_id and pte = pte
        and body = body and max_iterations = max_iterations and line = line and t = t and s = s]
    show ?thesis
    proof (cases "on_line w request_id pte body max_iterations line t s")
      case (Raised e s')
      with step False show ?thesis by simp
    next
      case (Finished r)
      with step False show ?thesis by (simp split: outcome.splits)
    next
      case (Forward t' s')
      with step have r: "requests s' = requests s" by simp
      from Cons [where t = t' and s = "snd (write_out w (Line line) s')"] r Forward False
      show ?thesis
        by (auto simp: case_prod_beta split: outcome.splits)
    qed
  qed
qed

lemma streaming_turn_requests:
  "case streaming_turn w body is_first max_iterations s of
     Return s' \<Rightarrow> length (requests s') \<le> Suc (length (requests s))
                  \<and> (effective_max_iterations w max_iterations \<le> 0 \<longrightarrow>
                        requests s' = requests s)
   | Call b f m s' \<Rightarrow>
       0 < effective_max_iterations w max_iterations
       \<and> m = effective_max_iterations w max_iterations - 1
       \<and> length (requests s') = Suc (length (requests s))"
proof (cases "effective_max_iterations w max_iterations \<le> 0")
  case True
  then show ?thesis by (simp add: budget_exhausted_turn)
next
  case False
  define s1 where "s1 = s\<lparr>clock_reads := Suc (clock_reads s)\<rparr>"
  define s2 where
    "s2 = (if is_first \<and> send_headers w \<and> \<not> headers_sent s1
           then s1\<lparr>headers_sent := True, header_sends := Suc (header_sends s1)\<rparr> else s1)"
  define s3 where "s3 = s2\<lparr>requests := requests s2 @ [inject_tools body]\<rparr>"
  have r3: "requests s3 = requests s @ [inject_tools body]"
    by (simp add: s3_def s2_def s1_def)
  show ?thesis
  proof (cases "request_chat_completions w (length (requests s2)) (inject_tools body)")
    case (Inl message)
    with False r3 show ?thesis
      by (simp add: streaming_turn_def Let_def s1_def [symmetric] s2_def [symmetric]
          s3_def [symmetric])
  next
    case (Inr lines)
    with False
    have eq: "streaming_turn w body is_first max_iterations s =
                read_loop w (hexstr (time_ms w (clock_reads s)))
                  (prompt_tokens_of w (inject_tools body)) (inject_tools body)
                  (effective_max_iterations w max_iterations) lines turn0 s3"
      by (simp add: streaming_turn_def Let_def s1_def [symmetric] s2_def [symmetric]
          s3_def [symmetric])
    from read_loop_requests [where w = w and request_id = "hexstr (time_ms w (clock_reads s))"
        and pte = "prompt_tokens_of w (inject_tools body)" and body = "inject_tools body"
        and max_iterations = "effective_max_iterations w max_iterations" and lines = lines
        and t = turn0 and s = s3] False r3
    show ?thesis
      unfolding eq by (auto split: outcome.splits)
  qed
qed

text \<open>
  Where the environment does not override the budget, the call chain returns within
  \<open>max_iterations + 1\<close> invocations and makes at most \<open>max_iterations\<close> upstream
  requests, whatever the upstream streams.
\<close>

lemma budget_bounds_turns_without_override:
  assumes "\<And>m. effective_max_iterations w m = m"
  shows "(nat max_iterations < depth \<longrightarrow>
            handle_streaming depth w body is_first max_iterations s \<noteq> None)
         \<and> (handle_streaming depth w body is_first max_iterations s = Some s' \<longrightarrow>
              length (requests s') \<le> length (requests s) + nat max_iterations)"
proof (induction depth arbitrary: body is_first max_iterations s)
  case 0
  show ?case by simp
next
  case (Suc depth)
  note turn = streaming_turn_requests [where w = w and body = body and is_first = is_first
      and max_iterations = max_iterations and s = s]
  show ?case
  proof (cases "streaming_turn w body is_first max_iterations s")
    case (Return s1)
    with turn assms show ?thesis
      by (cases "max_iterations \<le> 0") auto
  next
    case (Call b f m s1)
    with turn assms have pos: "0 < max_iterations" and m: "m = max_iterations - 1"
      and r1: "length (requests s1) = Suc (length (requests s))"
      by simp_all
    from Suc [where max_iterations = m and body = b and is_first = f and s = s1] pos m r1 Call
    show ?thesis
      by (auto simp: nat_diff_distrib)
  qed
qed

end
